theory Spec2Isabelle
  imports Complex_Main "HOL-Library.Word" "HOL-Library.Finite_Map" "HOL-Library.Multiset"
    "HOL-Library.Monad_Syntax" "HOL-Library.Sublist"
begin

unbundle bit_operations_syntax

section \<open>Vectors, bounding spheres and the collaborators outside the file\<close>

text \<open>A finite \<open>float\<close> is modelled as a real: the claims below concern the control flow
  around the floats, and the concrete values they mention are exactly representable. The
  infinities and the NaN that a division by zero produces are modelled where they arise, in the
  fade of a light and in the diffuse colour it is multiplied into.\<close>

record Vec3f =
  v3x :: real
  v3y :: real
  v3z :: real

record Vec4f =
  v4x :: real
  v4y :: real
  v4z :: real
  v4w :: real

text \<open>\<open>Vec4f::operator*(float)\<close> and \<open>operator*=\<close>: every component is scaled.\<close>

definition vec4_scale :: "Vec4f \<Rightarrow> real \<Rightarrow> Vec4f" where
  "vec4_scale v k = \<lparr>v4x = v4x v * k, v4y = v4y v * k, v4z = v4z v * k, v4w = v4w v * k\<rparr>"

text \<open>A float that is finite or a NaN.\<close>

datatype nanfloat = Finite real | NaN

text \<open>An \<open>osg::Vec4\<close> that holds a diffuse colour: four finite floats, or the four NaNs that
  a product with a NaN leaves, one in every component.\<close>

datatype Colour = Rgba Vec4f | NaNs

text \<open>\<open>Vec4f::operator*(float)\<close> on such a colour: a product with a NaN is a NaN.\<close>

fun colour_scale :: "Colour \<Rightarrow> nanfloat \<Rightarrow> Colour" where
  "colour_scale (Rgba v) (Finite k) = Rgba (vec4_scale v k)"
| "colour_scale (Rgba v) NaN = NaNs"
| "colour_scale NaNs k = NaNs"

text \<open>\<open>value[0] < 0\<close>: a comparison with a NaN is false.\<close>

fun redBelowZero :: "Colour \<Rightarrow> bool" where
  "redBelowZero (Rgba v) = (v4x v < 0)"
| "redBelowZero NaNs = False"

definition length2 :: "Vec3f \<Rightarrow> real" where
  "length2 v = v3x v * v3x v + v3y v * v3y v + v3z v * v3z v"

definition length_v3 :: "Vec3f \<Rightarrow> real" where
  "length_v3 v = sqrt (length2 v)"

record BoundingSphere =
  center :: Vec3f
  radius :: real

definition radius2 :: "BoundingSphere \<Rightarrow> real" where
  "radius2 b = radius b * radius b"

text \<open>One element of an \<open>osg::FloatArray\<close>, as the four bytes it occupies: \<open>memcpy\<close> moves
  object representations, whether they were written as a \<open>float\<close> or as an \<open>unsigned int\<close>.\<close>

type_synonym cell = "32 word"

text \<open>\<open>LightManager::LightSourceViewBound\<close>: a light source (the address of the scene graph
  node) and its bounding sphere in the view space of one camera.\<close>

record LightSourceViewBound =
  mLightSource :: nat
  mViewBound :: BoundingSphere

text \<open>Functions this file calls and does not define (OpenSceneGraph's vector, matrix and
  bounding sphere operations, \<open>Misc::hashCombine\<close>, \<open>transformBoundingSphere\<close> of
  \<open>util.hpp\<close>, \<open>std::sort\<close>): they are parameters of the model.
  \<open>hashCombine ext seed id\<close> is the seed after \<open>Misc::hashCombine(seed, id)\<close>; \<open>floatBits\<close> is
  the object representation of a float; \<open>stdSort ext cmp xs\<close> is the range \<open>xs\<close> after
  \<open>std::sort\<close> with the comparison \<open>cmp\<close>.\<close>

record 'mat Externals =
  hashCombine :: "64 word \<Rightarrow> int \<Rightarrow> 64 word"
  asRGBA_osg :: "Colour \<Rightarrow> 32 word"
  asABGR_osg :: "Colour \<Rightarrow> 32 word"
  floatBits :: "real \<Rightarrow> cell"
  matMult :: "'mat \<Rightarrow> 'mat \<Rightarrow> 'mat"
  vecMult :: "Vec4f \<Rightarrow> 'mat \<Rightarrow> Vec4f"
  transformBoundingSphere :: "'mat \<Rightarrow> BoundingSphere \<Rightarrow> BoundingSphere"
  intersects :: "BoundingSphere \<Rightarrow> BoundingSphere \<Rightarrow> bool"
  stdSort :: "(LightSourceViewBound \<Rightarrow> LightSourceViewBound \<Rightarrow> bool) \<Rightarrow>
              LightSourceViewBound list \<Rightarrow> LightSourceViewBound list"

text \<open>What \<open>std::sort\<close> guarantees for a comparison that orders by a key: the result is a
  rearrangement of the range, ascending in the key. The order of elements with equal keys is
  left open.\<close>

definition stdSortContract :: "'mat Externals \<Rightarrow> bool" where
  "stdSortContract ext =
     (\<forall>(key :: LightSourceViewBound \<Rightarrow> real) xs.
        mset (stdSort ext (\<lambda>a b. key a < key b) xs) = mset xs \<and>
        sorted (map key (stdSort ext (\<lambda>a b. key a < key b) xs)))"

text \<open>An insertion sort driven by the comparison, one implementation of that contract.\<close>

fun insertBy :: "('a \<Rightarrow> 'a \<Rightarrow> bool) \<Rightarrow> 'a \<Rightarrow> 'a list \<Rightarrow> 'a list" where
  "insertBy cmp x [] = [x]"
| "insertBy cmp x (y # ys) = (if cmp x y then x # y # ys else y # insertBy cmp x ys)"

definition insertionSort :: "('a \<Rightarrow> 'a \<Rightarrow> bool) \<Rightarrow> 'a list \<Rightarrow> 'a list" where
  "insertionSort cmp xs = foldr (insertBy cmp) xs []"

section \<open>The packed light buffer\<close>

datatype LayoutOffset = Diffuse | DiffuseSign | Ambient | Specular | Position | AttenuationRadius

datatype Endian = BigEndian | LittleEndian

text \<open>Conversions of the C++ integer types: \<open>int\<close> to \<open>size_t\<close> (64 bits), \<open>int\<close> to
  \<open>unsigned\<close> (32 bits) and an unsigned value back to \<open>int\<close> (two's complement).\<close>

definition to_size_t :: "int \<Rightarrow> int" where
  "to_size_t x = x mod 2 ^ 64"

definition to_unsigned :: "int \<Rightarrow> int" where
  "to_unsigned x = x mod 2 ^ 32"

definition to_int :: "int \<Rightarrow> int" where
  "to_int x = (x + 2 ^ 31) mod 2 ^ 32 - 2 ^ 31"

text \<open>\<open>LightBuffer::Offsets\<close>: the stride of a record and the offset of each field, both counted
  in floats. \<open>mValues\<close> is the \<open>std::array<int, 6>\<close> indexed by the enumeration.\<close>

record Offsets =
  mStride :: int
  mValues :: "LayoutOffset \<Rightarrow> int"

text \<open>The default constructor \<open>Offsets()\<close>.\<close>

definition Offsets_default :: Offsets where
  "Offsets_default =
     \<lparr>mStride = 12,
      mValues = (\<lambda>slot. case slot of
         Diffuse \<Rightarrow> 0 | Ambient \<Rightarrow> 1 | Specular \<Rightarrow> 2 | DiffuseSign \<Rightarrow> 3
       | Position \<Rightarrow> 4 | AttenuationRadius \<Rightarrow> 8)\<rparr>"

text \<open>The constructor \<open>Offsets(offsetColors, offsetPosition, offsetAttenuationRadius, stride)\<close>.
  \<open>sizeof(GLfloat)\<close> is a \<open>size_t\<close>, so the sums and quotients are computed on 64-bit
  unsigned values and stored into \<open>int\<close>s.\<close>

definition Offsets_init :: "int \<Rightarrow> int \<Rightarrow> int \<Rightarrow> int \<Rightarrow> Offsets" where
  "Offsets_init offsetColors offsetPosition offsetAttenuationRadius stride =
     (let sizeofFloat = 4;
          diffuseOffset = to_size_t offsetColors div sizeofFloat
      in \<lparr>mStride =
            to_int (((to_size_t offsetAttenuationRadius + sizeofFloat * 4 + to_size_t stride)
                      mod 2 ^ 64) div 4),
          mValues = (\<lambda>slot. case slot of
             Diffuse \<Rightarrow> to_int diffuseOffset
           | Ambient \<Rightarrow> to_int ((diffuseOffset + 1) mod 2 ^ 64)
           | Specular \<Rightarrow> to_int ((diffuseOffset + 2) mod 2 ^ 64)
           | DiffuseSign \<Rightarrow> to_int ((diffuseOffset + 3) mod 2 ^ 64)
           | Position \<Rightarrow> to_int (to_size_t offsetPosition div sizeofFloat)
           | AttenuationRadius \<Rightarrow> to_int (to_size_t offsetAttenuationRadius div sizeofFloat))\<rparr>)"

text \<open>\<open>Offsets::get\<close>.\<close>

definition Offsets_get :: "Offsets \<Rightarrow> int \<Rightarrow> LayoutOffset \<Rightarrow> int" where
  "Offsets_get offs index slot = mStride offs * index + mValues offs slot"

record LightBuffer =
  mData :: "cell list"
  mEndian :: Endian
  mCount :: int
  mOffsets :: Offsets
  mCachedSunPos :: Vec4f

text \<open>The constructor \<open>LightBuffer(count)\<close>: \<open>3*4*count\<close> zeroed floats and the default layout.
  The byte order of the CPU is a parameter.\<close>

definition LightBuffer_init :: "Endian \<Rightarrow> int \<Rightarrow> LightBuffer" where
  "LightBuffer_init endian n =
     \<lparr>mData = replicate (nat (3 * 4 * n)) 0,
      mEndian = endian,
      mCount = n,
      mOffsets = Offsets_default,
      mCachedSunPos = \<lparr>v4x = 0, v4y = 0, v4z = 0, v4w = 0\<rparr>\<rparr>"

definition getOffset :: "LightBuffer \<Rightarrow> int \<Rightarrow> LayoutOffset \<Rightarrow> int" where
  "getOffset buf index slot = Offsets_get (mOffsets buf) index slot"

text \<open>\<open>std::memcpy(&dst[off], src, n * sizeof(float))\<close> and the read of \<open>n\<close> floats at
  \<open>src + off\<close>. The vector's \<open>operator[]\<close> is unchecked: an access outside the vector is
  undefined behaviour, \<open>None\<close> in the model.\<close>

definition memcpy_to :: "cell list \<Rightarrow> int \<Rightarrow> cell list \<Rightarrow> cell list option" where
  "memcpy_to dst off src =
     (if 0 \<le> off \<and> off + int (length src) \<le> int (length dst)
      then Some (take (nat off) dst @ src @ drop (nat off + length src) dst)
      else None)"

definition read_at :: "cell list \<Rightarrow> int \<Rightarrow> nat \<Rightarrow> cell list option" where
  "read_at src off n =
     (if 0 \<le> off \<and> off + int n \<le> int (length src)
      then Some (take n (drop (nat off) src))
      else None)"

text \<open>\<open>LightBuffer::asRGBA\<close>.\<close>

definition asRGBA :: "'mat Externals \<Rightarrow> LightBuffer \<Rightarrow> Colour \<Rightarrow> 32 word" where
  "asRGBA ext buf v = (if mEndian buf = BigEndian then asABGR_osg ext v else asRGBA_osg ext v)"

text \<open>\<open>LightBuffer::setDiffuse\<close>. \<open>~0u\<close> is the word of all ones, \<open>- 1\<close>.\<close>

definition setDiffuse :: "'mat Externals \<Rightarrow> LightBuffer \<Rightarrow> int \<Rightarrow> Colour \<Rightarrow> LightBuffer option" where
  "setDiffuse ext buf index v =
     (let positiveColor = (if redBelowZero v then colour_scale v (Finite (- 1)) else v);
          signBit = (if redBelowZero v then - 1 else 1);
          packedColor = asRGBA ext buf positiveColor
      in do {
        d1 \<leftarrow> memcpy_to (mData buf) (getOffset buf index Diffuse) [packedColor];
        d2 \<leftarrow> memcpy_to d1 (getOffset buf index DiffuseSign) [signBit];
        Some (buf\<lparr>mData := d2\<rparr>)
      })"

definition setAmbient :: "'mat Externals \<Rightarrow> LightBuffer \<Rightarrow> int \<Rightarrow> Vec4f \<Rightarrow> LightBuffer option" where
  "setAmbient ext buf index v =
     do {
       d \<leftarrow> memcpy_to (mData buf) (getOffset buf index Ambient) [asRGBA ext buf (Rgba v)];
       Some (buf\<lparr>mData := d\<rparr>)
     }"

definition setSpecular :: "'mat Externals \<Rightarrow> LightBuffer \<Rightarrow> int \<Rightarrow> Vec4f \<Rightarrow> LightBuffer option" where
  "setSpecular ext buf index v =
     do {
       d \<leftarrow> memcpy_to (mData buf) (getOffset buf index Specular) [asRGBA ext buf (Rgba v)];
       Some (buf\<lparr>mData := d\<rparr>)
     }"

text \<open>The four floats of a \<open>Vec4f\<close>, as \<open>value.ptr()\<close> exposes them.\<close>

definition vec4_cells :: "'mat Externals \<Rightarrow> Vec4f \<Rightarrow> cell list" where
  "vec4_cells ext v = [floatBits ext (v4x v), floatBits ext (v4y v), floatBits ext (v4z v), floatBits ext (v4w v)]"

definition setPosition :: "'mat Externals \<Rightarrow> LightBuffer \<Rightarrow> int \<Rightarrow> Vec4f \<Rightarrow> LightBuffer option" where
  "setPosition ext buf index v =
     do {
       d \<leftarrow> memcpy_to (mData buf) (getOffset buf index Position) (vec4_cells ext v);
       Some (buf\<lparr>mData := d\<rparr>)
     }"

definition setAttenuationRadius :: "'mat Externals \<Rightarrow> LightBuffer \<Rightarrow> int \<Rightarrow> Vec4f \<Rightarrow> LightBuffer option" where
  "setAttenuationRadius ext buf index v =
     do {
       d \<leftarrow> memcpy_to (mData buf) (getOffset buf index AttenuationRadius) (vec4_cells ext v);
       Some (buf\<lparr>mData := d\<rparr>)
     }"

text \<open>\<open>LightBuffer::setCachedSunPos\<close> and \<open>LightBuffer::uploadCachedSunPos\<close>.\<close>

definition setCachedSunPos :: "LightBuffer \<Rightarrow> Vec4f \<Rightarrow> LightBuffer" where
  "setCachedSunPos buf pos = buf\<lparr>mCachedSunPos := pos\<rparr>"

definition uploadCachedSunPos :: "'mat Externals \<Rightarrow> LightBuffer \<Rightarrow> 'mat \<Rightarrow> LightBuffer option" where
  "uploadCachedSunPos ext buf viewMat =
     (let viewPos = vecMult ext (mCachedSunPos buf) viewMat
      in do {
        d \<leftarrow> memcpy_to (mData buf) (getOffset buf 0 Position) (vec4_cells ext viewPos);
        Some (buf\<lparr>mData := d\<rparr>)
      })"

text \<open>\<open>LightBuffer::queryBlockSize\<close>: three \<open>Vec4\<close>s of four-byte floats for each record.
  \<open>sizeof(GLfloat)\<close> makes the product a \<open>size_t\<close>, which is narrowed to the \<open>int\<close>
  returned.\<close>

definition queryBlockSize :: "int \<Rightarrow> int" where
  "queryBlockSize sz = to_int ((3 * 4 * 4 * to_size_t sz) mod 2 ^ 64)"

text \<open>\<open>osg::FloatArray::resizeArray\<close>, that is \<open>std::vector::resize\<close>: the vector keeps its
  first elements and is filled up with zeros.\<close>

definition resizeArray :: "cell list \<Rightarrow> nat \<Rightarrow> cell list" where
  "resizeArray xs n = take n xs @ replicate (n - length xs) 0"

text \<open>One pass of the loop of \<open>configureLayout\<close>: the three quadwords of record \<open>i\<close> are
  copied from the clone \<open>src\<close> (old layout \<open>old\<close>) into \<open>dst\<close> (new layout \<open>new\<close>).\<close>

definition copyRecord :: "Offsets \<Rightarrow> Offsets \<Rightarrow> cell list \<Rightarrow> int \<Rightarrow> cell list \<Rightarrow> cell list option" where
  "copyRecord old new src i dst =
     do {
       q1 \<leftarrow> read_at src (Offsets_get old i Diffuse) 4;
       d1 \<leftarrow> memcpy_to dst (Offsets_get new i Diffuse) q1;
       q2 \<leftarrow> read_at src (Offsets_get old i Position) 4;
       d2 \<leftarrow> memcpy_to d1 (Offsets_get new i Position) q2;
       q3 \<leftarrow> read_at src (Offsets_get old i AttenuationRadius) 4;
       memcpy_to d2 (Offsets_get new i AttenuationRadius) q3
     }"

text \<open>The loop \<open>for (int i = 0; i < mCount; ++i)\<close>, over the indices still to visit.\<close>

fun copyRecords :: "Offsets \<Rightarrow> Offsets \<Rightarrow> cell list \<Rightarrow> int list \<Rightarrow> cell list \<Rightarrow> cell list option" where
  "copyRecords old new src [] dst = Some dst"
| "copyRecords old new src (i # rest) dst =
     (case copyRecord old new src i dst of
        None \<Rightarrow> None
      | Some dst' \<Rightarrow> copyRecords old new src rest dst')"

text \<open>\<open>LightBuffer::configureLayout\<close>.\<close>

definition configureLayout :: "LightBuffer \<Rightarrow> int \<Rightarrow> int \<Rightarrow> int \<Rightarrow> int \<Rightarrow> int \<Rightarrow> LightBuffer option" where
  "configureLayout buf offsetColors offsetPosition offsetAttenuationRadius sz stride =
     (let offsets = Offsets_init offsetColors offsetPosition offsetAttenuationRadius stride;
          data = mData buf;
          resized = resizeArray data (nat (to_unsigned sz))
      in case copyRecords (mOffsets buf) offsets data (map int [0 ..< nat (mCount buf)]) resized of
           None \<Rightarrow> None
         | Some d \<Rightarrow> Some (buf\<lparr>mData := d, mOffsets := offsets\<rparr>))"

text \<open>The fields that \<open>configureLayout\<close> copies as whole quadwords, and the condition under
  which a layout keeps the three quadwords of records \<open>0 .. n - 1\<close> apart: no two of them share
  a float.\<close>

definition copiedSlots :: "LayoutOffset set" where
  "copiedSlots = {Diffuse, Position, AttenuationRadius}"

definition quadsApart :: "int \<Rightarrow> int \<Rightarrow> bool" where
  "quadsApart a b = (a + 4 \<le> b \<or> b + 4 \<le> a)"

definition layoutSeparates :: "Offsets \<Rightarrow> int \<Rightarrow> bool" where
  "layoutSeparates offs n =
     (\<forall>i\<in>{0..<n}. \<forall>j\<in>{0..<n}. \<forall>s\<in>copiedSlots. \<forall>t\<in>copiedSlots.
        (i, s) \<noteq> (j, t) \<longrightarrow> quadsApart (Offsets_get offs i s) (Offsets_get offs j t))"

text \<open>The three quadwords of records \<open>0 .. n - 1\<close> lie inside a vector of \<open>len\<close> floats.\<close>

definition layoutFits :: "Offsets \<Rightarrow> int \<Rightarrow> nat \<Rightarrow> bool" where
  "layoutFits offs n len =
     (\<forall>i\<in>{0..<n}. \<forall>s\<in>copiedSlots.
        0 \<le> Offsets_get offs i s \<and> Offsets_get offs i s + 4 \<le> int len)"

text \<open>A buffer of two records under the default layout whose 24 floats are all different,
  to run \<open>configureLayout\<close> on.\<close>

definition twoRecordBuffer :: LightBuffer where
  "twoRecordBuffer =
     (LightBuffer_init LittleEndian 2)
       \<lparr>mData := [1, 2, 3, 4, 5, 6, 7, 8, 9, 10, 11, 12,
                  13, 14, 15, 16, 17, 18, 19, 20, 21, 22, 23, 24]\<rparr>"

section \<open>Lighting tiers and their configuration names\<close>

text \<open>The three lighting strategies of the light manager (\<open>enum class LightingMethod\<close>).\<close>

datatype LightingMethod = FFP | PerObjectUniform | SingleUBO

text \<open>\<open>LightManager::mLightingMethodSettingMap\<close>, an \<open>unordered_map\<close> built from three
  entries with distinct keys; \<open>find\<close> on it is \<open>map_of\<close> on the entries.\<close>

definition mLightingMethodSettingMap :: "(string \<times> LightingMethod) list" where
  "mLightingMethodSettingMap =
     [(''legacy'', FFP),
      (''shaders compatibility'', PerObjectUniform),
      (''shaders'', SingleUBO)]"

text \<open>A line written to the log: \<open>Log(Debug::Warning) << ...\<close>.\<close>

datatype LogLine = Warning string

definition unknownMethodWarning :: "string \<Rightarrow> LogLine" where
  "unknownMethodWarning v =
     Warning (''Unknown lighting method '' @ [CHR 0x27] @ v @ [CHR 0x27] @
              '', returning fallback '' @ [CHR 0x27] @ ''shaders compatibility'' @ [CHR 0x27])"

text \<open>\<open>LightManager::getLightingMethodFromString\<close>: the tier returned, and the lines it logs.\<close>

definition getLightingMethodFromString :: "string \<Rightarrow> LightingMethod \<times> LogLine list" where
  "getLightingMethodFromString v =
     (case map_of mLightingMethodSettingMap v of
        Some m \<Rightarrow> (m, [])
      | None \<Rightarrow> (PerObjectUniform, [unknownMethodWarning v]))"

section \<open>Light sources and the light manager\<close>

text \<open>The fields of an \<open>osg::Light\<close> that this file reads and writes; \<open>userRadius\<close> is the user
  value \<open>"radius"\<close>.\<close>

record Light =
  diffuse :: Colour
  ambient :: Vec4f
  specular :: Vec4f
  position :: Vec4f
  constantAttenuation :: real
  linearAttenuation :: real
  quadraticAttenuation :: real
  userRadius :: real

text \<open>Arrays of two elements (\<open>mLight[2]\<close>, \<open>mStateSetCache[2]\<close>, \<open>mLightBuffers[2]\<close>) are
  pairs, read and written at index 0 or 1.\<close>

definition at2 :: "'a \<times> 'a \<Rightarrow> nat \<Rightarrow> 'a" where
  "at2 p i = (if i = 0 then fst p else snd p)"

definition upd2 :: "'a \<times> 'a \<Rightarrow> nat \<Rightarrow> 'a \<Rightarrow> 'a \<times> 'a" where
  "upd2 p i v = (if i = 0 then (v, snd p) else (fst p, v))"

record LightSource =
  mId :: int
  mRadius :: real
  mLight :: "Light \<times> Light"

text \<open>Modelled from the spec: \<open>LightSource::getLight(frameNum)\<close> is defined in the header, which
  is not part of the sources; "on frame N the manager reads/writes copy N mod 2".\<close>

definition getLight :: "LightSource \<Rightarrow> nat \<Rightarrow> Light" where
  "getLight ls frameNum = at2 (mLight ls) (frameNum mod 2)"

definition setLight :: "LightSource \<Rightarrow> nat \<Rightarrow> Light \<Rightarrow> LightSource" where
  "setLight ls frameNum l = ls\<lparr>mLight := upd2 (mLight ls) (frameNum mod 2) l\<rparr>"

text \<open>\<open>LightManager::LightSourceTransform\<close>.\<close>

record 'mat LightSourceTransform =
  tLightSource :: nat
  mWorldMatrix :: 'mat

text \<open>A pointer to one of the two \<open>osg::Light\<close>s of a light source: the address of the light
  source and the index of the copy.\<close>

type_synonym LightRef = "nat \<times> nat"

datatype StateAttribute =
    FFPLightStateAttribute int "LightRef list"
  | LightStateAttributePerObjectUniform "LightRef list"

text \<open>An \<open>osg::Uniform\<close> as far as this file reads and writes it: its type and its array of
  ints. A scalar uniform of type \<open>BOOL\<close> holds one int, 0 or 1.\<close>

datatype UniformType = IntUniform | BoolUniform

record Uniform =
  uniformType :: UniformType
  intArray :: "int list"

text \<open>An \<open>osg::StateSet\<close>, as far as the generators fill it: its attributes, its modes, and
  the uniforms \<open>PointLightIndex\<close> and \<open>PointLightCount\<close> where present.\<close>

record StateSet =
  attributes :: "StateAttribute list"
  modes :: "int list"
  uPointLightIndex :: "Uniform option"
  uPointLightCount :: "int option"

text \<open>The light manager, together with the two kinds of objects it reaches through pointers:
  the light source nodes of the scene graph (\<open>heapLights\<close>, by address) and the state sets it
  has created (\<open>heapStateSets\<close>, by address; \<open>nextStateSet\<close> is the address that the next
  \<open>new osg::StateSet\<close> returns). \<open>mLightsInViewSpace\<close> is keyed by the address of the camera.
  \<open>mSun\<close> is the light that the pointer of that name refers to, if it is not null. The two
  light buffers exist in the tier \<open>SingleUBO\<close> only.\<close>

record 'mat LightManager =
  mStartLight :: int
  mLightingMask :: "64 word"
  mSun :: "Light option"
  mLightingMethod :: LightingMethod
  mMaxLights :: int
  mPointLightRadiusMultiplier :: real
  mPointLightFadeEnd :: real
  mPointLightFadeStart :: real
  mLights :: "'mat LightSourceTransform list"
  mLightsInViewSpace :: "(nat, LightSourceViewBound list) fmap"
  mLightIndexMaps :: "(int, int) fmap \<times> (int, int) fmap"
  mStateSetCache :: "(64 word, nat) fmap \<times> (64 word, nat) fmap"
  mLightBuffers :: "LightBuffer \<times> LightBuffer"
  mDummies :: "StateAttribute list"
  heapLights :: "nat \<Rightarrow> LightSource"
  heapStateSets :: "nat \<Rightarrow> StateSet"
  nextStateSet :: nat

text \<open>Modelled from the spec: \<open>getLightIndexMap(frameNum)\<close> and \<open>getLightBuffer(frameNum)\<close> are
  defined in the header, which is not part of the sources; the spec has "two parallel
  generations of buffers/caches indexed by frame parity".\<close>

definition getLightIndexMap :: "'mat LightManager \<Rightarrow> nat \<Rightarrow> (int, int) fmap" where
  "getLightIndexMap mgr frameNum = at2 (mLightIndexMaps mgr) (frameNum mod 2)"

definition setLightIndexMap :: "'mat LightManager \<Rightarrow> nat \<Rightarrow> (int, int) fmap \<Rightarrow> 'mat LightManager" where
  "setLightIndexMap mgr frameNum m =
     mgr\<lparr>mLightIndexMaps := upd2 (mLightIndexMaps mgr) (frameNum mod 2) m\<rparr>"

definition getLightBuffer :: "'mat LightManager \<Rightarrow> nat \<Rightarrow> LightBuffer" where
  "getLightBuffer mgr frameNum = at2 (mLightBuffers mgr) (frameNum mod 2)"

definition setLightBuffer :: "'mat LightManager \<Rightarrow> nat \<Rightarrow> LightBuffer \<Rightarrow> 'mat LightManager" where
  "setLightBuffer mgr frameNum b =
     mgr\<lparr>mLightBuffers := upd2 (mLightBuffers mgr) (frameNum mod 2) b\<rparr>"

definition getLightingMethod :: "'mat LightManager \<Rightarrow> LightingMethod" where
  "getLightingMethod mgr = mLightingMethod mgr"

definition getMaxLights :: "'mat LightManager \<Rightarrow> int" where
  "getMaxLights mgr = mMaxLights mgr"

definition getStartLight :: "'mat LightManager \<Rightarrow> int" where
  "getStartLight mgr = mStartLight mgr"

text \<open>\<open>LightManager::setMaxLights\<close>, and \<open>LightManager::setStartLight\<close> as far as the manager's
  fields go (in the tier \<open>FFP\<close> it also puts default light attributes on the manager's own
  state set, which is not part of the model).\<close>

definition setMaxLights :: "'mat LightManager \<Rightarrow> int \<Rightarrow> 'mat LightManager" where
  "setMaxLights mgr v = mgr\<lparr>mMaxLights := v\<rparr>"

definition setStartLight :: "'mat LightManager \<Rightarrow> int \<Rightarrow> 'mat LightManager" where
  "setStartLight mgr start = mgr\<lparr>mStartLight := start\<rparr>"

text \<open>\<open>LightManager::setLightingMask\<close>, \<open>LightManager::setSunlight\<close> and
  \<open>LightManager::getSunlight\<close>.\<close>

definition setLightingMask :: "'mat LightManager \<Rightarrow> 64 word \<Rightarrow> 'mat LightManager" where
  "setLightingMask mgr m = mgr\<lparr>mLightingMask := m\<rparr>"

definition setSunlight :: "'mat LightManager \<Rightarrow> Light option \<Rightarrow> 'mat LightManager" where
  "setSunlight mgr sun = (if getLightingMethod mgr = FFP then mgr else mgr\<lparr>mSun := sun\<rparr>)"

definition getSunlight :: "'mat LightManager \<Rightarrow> Light option" where
  "getSunlight mgr = mSun mgr"

text \<open>\<open>LightManager::getMaxLightsInScene\<close>: how many records fit into 16 KiB.\<close>

definition getMaxLightsInScene :: int where
  "getMaxLightsInScene = 16384 div queryBlockSize 1"

text \<open>The number of entries of an \<open>unordered_map\<close>.\<close>

definition map_size :: "('k, 'v) fmap \<Rightarrow> nat" where
  "map_size m = fcard (fmdom m)"

text \<open>The orphan cleanup of \<open>update\<close> for one generation of the state set cache.\<close>

definition cleanupCache :: "(64 word, nat) fmap \<Rightarrow> (64 word, nat) fmap" where
  "cleanupCache c = (if map_size c > 5000 then fmempty else c)"

text \<open>\<open>LightManager::update\<close>.\<close>

definition update :: "'mat LightManager \<Rightarrow> nat \<Rightarrow> 'mat LightManager" where
  "update mgr frameNum =
     (let m1 = setLightIndexMap mgr frameNum fmempty;
          m2 = m1\<lparr>mLights := []\<rparr>;
          m3 = m2\<lparr>mLightsInViewSpace := fmempty\<rparr>
      in m3\<lparr>mStateSetCache :=
              (cleanupCache (at2 (mStateSetCache m3) 0), cleanupCache (at2 (mStateSetCache m3) 1))\<rparr>)"

text \<open>The values that \<open>Settings::Manager\<close> returns for the keys this file reads.\<close>

record Settings =
  lightBoundsMultiplier :: real
  maximumLightDistance :: real
  lightFadeStart :: real
  maxLightsSetting :: int

text \<open>\<open>std::clamp(v, lo, hi)\<close>.\<close>

definition clamp :: "'a::linorder \<Rightarrow> 'a \<Rightarrow> 'a \<Rightarrow> 'a" where
  "clamp v lo hi = (if v < lo then lo else if hi < v then hi else v)"

text \<open>\<open>LightManager::updateSettings\<close>.\<close>

definition updateSettings :: "Settings \<Rightarrow> 'mat LightManager \<Rightarrow> 'mat LightManager" where
  "updateSettings st mgr =
     (if getLightingMethod mgr = FFP then mgr
      else
        let m1 = mgr\<lparr>mPointLightRadiusMultiplier := clamp (lightBoundsMultiplier st) 0 5\<rparr>;
            m2 = m1\<lparr>mPointLightFadeEnd := max 0 (maximumLightDistance st)\<rparr>
        in if mPointLightFadeEnd m2 > 0
           then
             let m3 = m2\<lparr>mPointLightFadeStart := clamp (lightFadeStart st) 0 1\<rparr>
             in m3\<lparr>mPointLightFadeStart := mPointLightFadeEnd m3 * mPointLightFadeStart m3\<rparr>
           else m2)"

text \<open>\<open>LightManager::addLight\<close>. The translation of the world matrix is a parameter
  (\<open>worldMat.getTrans()\<close> is OpenSceneGraph's).\<close>

definition addLight :: "('mat \<Rightarrow> Vec3f) \<Rightarrow> 'mat LightManager \<Rightarrow> nat \<Rightarrow> 'mat \<Rightarrow> nat \<Rightarrow> 'mat LightManager" where
  "addLight getTrans mgr lightSource worldMat frameNum =
     (let l = \<lparr>tLightSource = lightSource, mWorldMatrix = worldMat\<rparr>;
          pos = getTrans worldMat;
          ls = heapLights mgr lightSource;
          light' = (getLight ls frameNum)\<lparr>position := \<lparr>v4x = v3x pos, v4y = v3y pos, v4z = v3z pos, v4w = 1\<rparr>\<rparr>;
          m1 = mgr\<lparr>heapLights := (heapLights mgr)(lightSource := setLight ls frameNum light')\<rparr>
      in m1\<lparr>mLights := mLights m1 @ [l]\<rparr>)"

section \<open>Lights in view space\<close>

record Camera =
  camAddr :: nat
  camName :: string

definition isReflectionCamera :: "Camera \<Rightarrow> bool" where
  "isReflectionCamera camera = (camName camera = ''ReflectionCamera'')"

text \<open>The quotient of two floats. A real stands for a finite float; a division by zero gives
  an infinity or, for \<open>0 / 0\<close>, a NaN, and does not trap.\<close>

datatype fquot = Quotient real | PosInf | NegInf | Invalid

definition float_div :: "real \<Rightarrow> real \<Rightarrow> fquot" where
  "float_div a b =
     (if b \<noteq> 0 then Quotient (a / b)
      else if a > 0 then PosInf
      else if a < 0 then NegInf
      else Invalid)"

text \<open>\<open>std::clamp(v, lo, hi)\<close>, that is \<open>(v < lo) ? lo : (hi < v) ? hi : v\<close>, on such a quotient
  and between finite bounds: an infinity is clamped to a bound, and every comparison with a NaN
  is false, so that a NaN stays.\<close>

definition clamp_q :: "fquot \<Rightarrow> real \<Rightarrow> real \<Rightarrow> nanfloat" where
  "clamp_q v lo hi =
     (case v of
        Quotient r \<Rightarrow> Finite (clamp r lo hi)
      | PosInf \<Rightarrow> Finite hi
      | NegInf \<Rightarrow> Finite lo
      | Invalid \<Rightarrow> NaN)"

text \<open>\<open>1 - v\<close>.\<close>

definition one_minus :: "nanfloat \<Rightarrow> nanfloat" where
  "one_minus v =
     (case v of
        Finite r \<Rightarrow> Finite (1 - r)
      | NaN \<Rightarrow> NaN)"

text \<open>The fade factor of \<open>getLightsInViewSpace\<close> for a light whose bound centre lies at
  \<open>distance\<close> from the camera.\<close>

definition fadeFactor :: "'mat LightManager \<Rightarrow> real \<Rightarrow> nanfloat" where
  "fadeFactor mgr distance =
     (let fadeDelta = mPointLightFadeEnd mgr - mPointLightFadeStart mgr
      in one_minus (clamp_q (float_div (distance - mPointLightFadeStart mgr) fadeDelta) 0 1))"

text \<open>\<open>light->setDiffuse(light->getDiffuse() * fade)\<close> for the light
  \<open>light = lightSource->getLight(frameNum)\<close>.\<close>

definition fadeDiffuse :: "LightSource \<Rightarrow> nat \<Rightarrow> nanfloat \<Rightarrow> LightSource" where
  "fadeDiffuse lightSource frameNum fade =
     (let light = getLight lightSource frameNum
      in setLight lightSource frameNum (light\<lparr>diffuse := colour_scale (diffuse light) fade\<rparr>))"

text \<open>The loop \<open>for (const auto& transform : mLights)\<close> of \<open>getLightsInViewSpace\<close>, over the
  transforms still to visit; the state is the heap of light sources and the list built so far.
  \<open>fade == 0.f\<close> is false for a NaN: a light whose fade is a NaN is kept, and its diffuse
  colour becomes NaNs.\<close>

fun collectLights ::
  "'mat Externals \<Rightarrow> 'mat LightManager \<Rightarrow> bool \<Rightarrow> 'mat \<Rightarrow> nat \<Rightarrow> 'mat LightSourceTransform list \<Rightarrow>
   (nat \<Rightarrow> LightSource) \<times> LightSourceViewBound list \<Rightarrow>
   (nat \<Rightarrow> LightSource) \<times> LightSourceViewBound list" where
  "collectLights ext mgr isReflection viewMatrix frameNum [] acc = acc"
| "collectLights ext mgr isReflection viewMatrix frameNum (t # ts) (heap, out) =
     (let worldViewMat = matMult ext (mWorldMatrix t) viewMatrix;
          lightSource = heap (tLightSource t);
          r = mRadius lightSource;
          viewBound = transformBoundingSphere ext worldViewMat
                        \<lparr>center = \<lparr>v3x = 0, v3y = 0, v3z = 0\<rparr>,
                         radius = r * mPointLightRadiusMultiplier mgr\<rparr>;
          l = \<lparr>mLightSource = tLightSource t, mViewBound = viewBound\<rparr>
      in if \<not> isReflection \<and> mPointLightFadeEnd mgr \<noteq> 0
         then
           let fade = fadeFactor mgr (length_v3 (center viewBound))
           in if fade = Finite 0
              then collectLights ext mgr isReflection viewMatrix frameNum ts (heap, out)
              else
                let heap' = heap(tLightSource t := fadeDiffuse lightSource frameNum fade)
                in collectLights ext mgr isReflection viewMatrix frameNum ts (heap', out @ [l])
         else collectLights ext mgr isReflection viewMatrix frameNum ts (heap, out @ [l]))"

text \<open>The comparison of the capacity truncation: ascending in distance squared minus radius
  squared.\<close>

definition sorterKey :: "LightSourceViewBound \<Rightarrow> real" where
  "sorterKey l = length2 (center (mViewBound l)) - radius2 (mViewBound l)"

definition sorter :: "LightSourceViewBound \<Rightarrow> LightSourceViewBound \<Rightarrow> bool" where
  "sorter left right = (sorterKey left < sorterKey right)"

text \<open>The second half of \<open>getLightsInViewSpace\<close>, on the list \<open>it->second\<close>: in the tier
  \<open>SingleUBO\<close> a list of more than \<open>getMaxLightsInScene() - 1\<close> elements is sorted from its
  second element on and cut after \<open>1 + (getMaxLightsInScene() - 2)\<close> elements.\<close>

definition truncateToCapacity ::
  "'mat Externals \<Rightarrow> 'mat LightManager \<Rightarrow> LightSourceViewBound list \<Rightarrow> LightSourceViewBound list" where
  "truncateToCapacity ext mgr l =
     (if getLightingMethod mgr = SingleUBO
      then
        if int (length l) > getMaxLightsInScene - 1
        then take (1 + nat (getMaxLightsInScene - 2)) (take 1 l @ stdSort ext sorter (drop 1 l))
        else l
      else l)"

text \<open>The first half of \<open>getLightsInViewSpace\<close>: the list \<open>it->second\<close> of the camera, found in
  \<open>mLightsInViewSpace\<close> or collected from \<open>mLights\<close>, and the manager at that point.\<close>

definition lookupOrCollect ::
  "'mat Externals \<Rightarrow> 'mat LightManager \<Rightarrow> Camera \<Rightarrow> 'mat \<Rightarrow> nat \<Rightarrow>
   LightSourceViewBound list \<times> 'mat LightManager" where
  "lookupOrCollect ext mgr camera viewMatrix frameNum =
     (case fmlookup (mLightsInViewSpace mgr) (camAddr camera) of
        Some l \<Rightarrow> (l, mgr)
      | None \<Rightarrow>
          (case collectLights ext mgr (isReflectionCamera camera) viewMatrix frameNum
                  (mLights mgr) (heapLights mgr, []) of
             (heap, out) \<Rightarrow> (out, mgr\<lparr>heapLights := heap\<rparr>)))"

text \<open>\<open>LightManager::getLightsInViewSpace\<close>: the list returned and the manager afterwards.\<close>

definition getLightsInViewSpace ::
  "'mat Externals \<Rightarrow> 'mat LightManager \<Rightarrow> Camera \<Rightarrow> 'mat \<Rightarrow> nat \<Rightarrow>
   LightSourceViewBound list \<times> 'mat LightManager" where
  "getLightsInViewSpace ext mgr camera viewMatrix frameNum =
     (case lookupOrCollect ext mgr camera viewMatrix frameNum of
        (l, m1) \<Rightarrow>
          let l' = truncateToCapacity ext m1 l
          in (l', m1\<lparr>mLightsInViewSpace := fmupd (camAddr camera) l' (mLightsInViewSpace m1)\<rparr>))"

text \<open>The view-space bound that the loop computes for a transform, and the distance of its
  centre from the camera.\<close>

definition viewBoundOf :: "'mat Externals \<Rightarrow> 'mat LightManager \<Rightarrow> 'mat \<Rightarrow> 'mat LightSourceTransform \<Rightarrow> BoundingSphere" where
  "viewBoundOf ext mgr viewMatrix t =
     transformBoundingSphere ext (matMult ext (mWorldMatrix t) viewMatrix)
       \<lparr>center = \<lparr>v3x = 0, v3y = 0, v3z = 0\<rparr>,
        radius = mRadius (heapLights mgr (tLightSource t)) * mPointLightRadiusMultiplier mgr\<rparr>"

definition distanceOf :: "'mat Externals \<Rightarrow> 'mat LightManager \<Rightarrow> 'mat \<Rightarrow> 'mat LightSourceTransform \<Rightarrow> real" where
  "distanceOf ext mgr viewMatrix t = length_v3 (center (viewBoundOf ext mgr viewMatrix t))"

section \<open>State sets for lists of lights\<close>

text \<open>\<open>LightManager::updateGPUPointLight\<close>. A write outside the buffer is \<open>None\<close>.\<close>

definition updateGPUPointLight ::
  "'mat Externals \<Rightarrow> 'mat LightManager \<Rightarrow> int \<Rightarrow> nat \<Rightarrow> nat \<Rightarrow> 'mat \<Rightarrow> 'mat LightManager option" where
  "updateGPUPointLight ext mgr index lightSource frameNum viewMatrix =
     (let ls = heapLights mgr lightSource;
          light = getLight ls frameNum;
          buf = getLightBuffer mgr frameNum
      in do {
        b1 \<leftarrow> setDiffuse ext buf index (diffuse light);
        b2 \<leftarrow> setAmbient ext b1 index (ambient light);
        b3 \<leftarrow> setAttenuationRadius ext b2 index
               \<lparr>v4x = constantAttenuation light, v4y = linearAttenuation light,
                v4z = quadraticAttenuation light, v4w = mRadius ls\<rparr>;
        b4 \<leftarrow> setPosition ext b3 index (vecMult ext (position light) viewMatrix);
        Some (setLightBuffer mgr frameNum b4)
      })"

text \<open>The identifier of the light source of an entry of a light list:
  \<open>lightList[i]->mLightSource->getId()\<close>.\<close>

definition lightId :: "'mat LightManager \<Rightarrow> LightSourceViewBound \<Rightarrow> int" where
  "lightId mgr l = mId (heapLights mgr (mLightSource l))"

text \<open>The first loop of \<open>getLightListStateSet\<close>, over the entries still to visit; the state
  is the hash and the manager. In the tier \<open>SingleUBO\<close> a light without a slot in the index map
  of the frame gets the next slot, and its data is written to the buffer of the frame.\<close>

fun assignLights ::
  "'mat Externals \<Rightarrow> nat \<Rightarrow> 'mat \<Rightarrow> LightSourceViewBound list \<Rightarrow> 64 word \<times> 'mat LightManager \<Rightarrow>
   (64 word \<times> 'mat LightManager) option" where
  "assignLights ext frameNum viewMatrix [] acc = Some acc"
| "assignLights ext frameNum viewMatrix (l # ls) (hash, mgr) =
     (let ident = lightId mgr l;
          hash' = hashCombine ext hash ident
      in if getLightingMethod mgr \<noteq> SingleUBO
         then assignLights ext frameNum viewMatrix ls (hash', mgr)
         else if fmlookup (getLightIndexMap mgr frameNum) ident \<noteq> None
         then assignLights ext frameNum viewMatrix ls (hash', mgr)
         else
           let index = int (map_size (getLightIndexMap mgr frameNum)) + 1
           in case updateGPUPointLight ext mgr index (mLightSource l) frameNum viewMatrix of
                None \<Rightarrow> None
              | Some m1 \<Rightarrow>
                  assignLights ext frameNum viewMatrix ls
                    (hash', setLightIndexMap m1 frameNum
                              (fmupd ident index (getLightIndexMap m1 frameNum))))"

text \<open>The key of a light list in the state set cache: the identifiers combined in order,
  starting from 0.\<close>

definition lightListHash :: "'mat Externals \<Rightarrow> int list \<Rightarrow> 64 word" where
  "lightListHash ext ids = foldl (hashCombine ext) 0 ids"

definition GL_LIGHT0 :: int where
  "GL_LIGHT0 = 0x4000"

definition emptyStateSet :: StateSet where
  "emptyStateSet = \<lparr>attributes = [], modes = [], uPointLightIndex = None, uPointLightCount = None\<rparr>"

text \<open>\<open>getDummies()[i]\<close>: the vector is indexed unchecked.\<close>

definition dummyAt :: "'mat LightManager \<Rightarrow> int \<Rightarrow> StateAttribute option" where
  "dummyAt mgr i =
     (if 0 \<le> i \<and> i < int (length (mDummies mgr)) then Some (mDummies mgr ! nat i) else None)"

fun collectDummies :: "'mat LightManager \<Rightarrow> int list \<Rightarrow> StateAttribute list option" where
  "collectDummies mgr [] = Some []"
| "collectDummies mgr (i # rest) =
     (case dummyAt mgr i of
        None \<Rightarrow> None
      | Some d \<Rightarrow> map_option ((#) d) (collectDummies mgr rest))"

text \<open>\<open>StateSetGeneratorFFP::generate\<close>.\<close>

definition generateFFP ::
  "'mat LightManager \<Rightarrow> LightSourceViewBound list \<Rightarrow> nat \<Rightarrow> (StateSet \<times> 'mat LightManager) option" where
  "generateFFP mgr lightList frameNum =
     (let lights = map (\<lambda>l. (mLightSource l, frameNum mod 2)) lightList;
          n = length lightList;
          start = getStartLight mgr
      in case collectDummies mgr (map (\<lambda>i. int i + start) [1 ..< n]) of
           None \<Rightarrow> None
         | Some dummies \<Rightarrow>
             Some (emptyStateSet
                     \<lparr>attributes := FFPLightStateAttribute start lights # dummies,
                      modes := map (\<lambda>i. GL_LIGHT0 + start + int i) [0 ..< n]\<rparr>,
                   mgr))"

text \<open>The loop of \<open>StateSetGeneratorSingleUBO::generate\<close>; the state is the index map, the
  array of indices and \<open>pointCount\<close>. \<open>operator[]\<close> of the index map inserts the slot 0 for an
  identifier it does not hold; \<open>indices->at\<close> throws outside the array (\<open>None\<close>).\<close>

fun fillIndices ::
  "int list \<Rightarrow> (int, int) fmap \<times> int list \<times> nat \<Rightarrow> ((int, int) fmap \<times> int list \<times> nat) option" where
  "fillIndices [] acc = Some acc"
| "fillIndices (ident # rest) (indexMap, indices, pointCount) =
     (let indexMap' = (case fmlookup indexMap ident of
                         None \<Rightarrow> fmupd ident 0 indexMap
                       | Some _ \<Rightarrow> indexMap);
          bufIndex = (case fmlookup indexMap ident of None \<Rightarrow> 0 | Some i \<Rightarrow> i)
      in if pointCount < length indices
         then fillIndices rest (indexMap', indices[pointCount := bufIndex], pointCount + 1)
         else None)"

text \<open>\<open>StateSetGeneratorSingleUBO::generate\<close>.\<close>

definition generateSingleUBO ::
  "'mat LightManager \<Rightarrow> LightSourceViewBound list \<Rightarrow> nat \<Rightarrow> (StateSet \<times> 'mat LightManager) option" where
  "generateSingleUBO mgr lightList frameNum =
     (case fillIndices (map (lightId mgr) lightList)
             (getLightIndexMap mgr frameNum, replicate (nat (getMaxLights mgr)) 0, 0) of
        None \<Rightarrow> None
      | Some (indexMap, indices, pointCount) \<Rightarrow>
          Some (emptyStateSet\<lparr>uPointLightIndex := Some \<lparr>uniformType = IntUniform, intArray = indices\<rparr>,
                               uPointLightCount := Some (int pointCount)\<rparr>,
                setLightIndexMap mgr frameNum indexMap))"

text \<open>\<open>setLightRadius(light, value)\<close> for the light of the frame.\<close>

definition setLightRadius :: "LightSource \<Rightarrow> nat \<Rightarrow> real \<Rightarrow> LightSource" where
  "setLightRadius ls frameNum v = setLight ls frameNum ((getLight ls frameNum)\<lparr>userRadius := v\<rparr>)"

text \<open>\<open>StateSetGeneratorPerObjectUniform::generate\<close>.\<close>

definition generatePerObjectUniform ::
  "'mat LightManager \<Rightarrow> LightSourceViewBound list \<Rightarrow> nat \<Rightarrow> (StateSet \<times> 'mat LightManager) option" where
  "generatePerObjectUniform mgr lightList frameNum =
     (let lights = map (\<lambda>l. (mLightSource l, frameNum mod 2)) lightList;
          heap' = fold (\<lambda>l h. h(mLightSource l := setLightRadius (h (mLightSource l)) frameNum
                                                      (mRadius (h (mLightSource l)))))
                    lightList (heapLights mgr)
      in Some (emptyStateSet
                 \<lparr>attributes := [LightStateAttributePerObjectUniform lights],
                  uPointLightCount := Some (int (length lightList + 1))\<rparr>,
               mgr\<lparr>heapLights := heap'\<rparr>))"

text \<open>\<open>mStateSetGenerator->generate\<close>: \<open>setLightingMethod\<close> installs the generator of the tier.\<close>

definition generate ::
  "'mat LightManager \<Rightarrow> LightSourceViewBound list \<Rightarrow> nat \<Rightarrow> (StateSet \<times> 'mat LightManager) option" where
  "generate mgr lightList frameNum =
     (case getLightingMethod mgr of
        FFP \<Rightarrow> generateFFP mgr lightList frameNum
      | SingleUBO \<Rightarrow> generateSingleUBO mgr lightList frameNum
      | PerObjectUniform \<Rightarrow> generatePerObjectUniform mgr lightList frameNum)"

text \<open>The loop of \<open>StateSetGeneratorSingleUBO::update\<close> over the indices \<open>i\<close> still to visit;
  the state is the array of the uniform \<open>PointLightIndex\<close> and \<open>newCount\<close>. \<open>lightList[i]\<close> is
  read unchecked: an index outside the list is \<open>None\<close>. \<open>Uniform::setElement\<close> ignores an index
  outside the array, as the list update does.\<close>

fun revalidate ::
  "'mat LightManager \<Rightarrow> (int, int) fmap \<Rightarrow> LightSourceViewBound list \<Rightarrow> nat list \<Rightarrow>
   int list \<times> nat \<Rightarrow> (int list \<times> nat) option" where
  "revalidate mgr lightData lightList [] acc = Some acc"
| "revalidate mgr lightData lightList (i # rest) (arr, newCount) =
     (if i < length lightList
      then (case fmlookup lightData (lightId mgr (lightList ! i)) of
              None \<Rightarrow> revalidate mgr lightData lightList rest (arr, newCount)
            | Some slot \<Rightarrow> revalidate mgr lightData lightList rest (arr[newCount := slot], newCount + 1))
      else None)"

text \<open>\<open>StateSetGeneratorSingleUBO::update\<close>. A state set without the two uniforms would be a
  null pointer dereference (\<open>None\<close>).\<close>

definition updateSingleUBO ::
  "'mat LightManager \<Rightarrow> StateSet \<Rightarrow> LightSourceViewBound list \<Rightarrow> nat \<Rightarrow> StateSet option" where
  "updateSingleUBO mgr stateset lightList frameNum =
     (case (uPointLightIndex stateset, uPointLightCount stateset) of
        (Some uOldArray, Some storedCount) \<Rightarrow>
          let oldCount = min (getMaxLights mgr) storedCount;
              lightData = getLightIndexMap mgr frameNum
          in (case revalidate mgr lightData lightList [0 ..< nat oldCount] (intArray uOldArray, 0) of
                None \<Rightarrow> None
              | Some (arr, newCount) \<Rightarrow>
                  Some (stateset\<lparr>uPointLightIndex := Some (uOldArray\<lparr>intArray := arr\<rparr>),
                                 uPointLightCount := Some (int newCount)\<rparr>))
      | _ \<Rightarrow> None)"

text \<open>\<open>mStateSetGenerator->update\<close>: only the generator of \<open>SingleUBO\<close> overrides the empty
  \<open>update\<close> of the base class.\<close>

definition generatorUpdate ::
  "'mat LightManager \<Rightarrow> StateSet \<Rightarrow> LightSourceViewBound list \<Rightarrow> nat \<Rightarrow> StateSet option" where
  "generatorUpdate mgr stateset lightList frameNum =
     (case getLightingMethod mgr of
        SingleUBO \<Rightarrow> updateSingleUBO mgr stateset lightList frameNum
      | _ \<Rightarrow> Some stateset)"

text \<open>\<open>LightManager::getLightListStateSet\<close>: the address of the state set returned and the
  manager afterwards.\<close>

definition getLightListStateSet ::
  "'mat Externals \<Rightarrow> 'mat LightManager \<Rightarrow> LightSourceViewBound list \<Rightarrow> nat \<Rightarrow> 'mat \<Rightarrow>
   (nat \<times> 'mat LightManager) option" where
  "getLightListStateSet ext mgr lightList frameNum viewMatrix =
     (case assignLights ext frameNum viewMatrix lightList (0, mgr) of
        None \<Rightarrow> None
      | Some (hash, m1) \<Rightarrow>
          let stateSetCache = at2 (mStateSetCache m1) (frameNum mod 2)
          in case fmlookup stateSetCache hash of
               Some found \<Rightarrow>
                 (case generatorUpdate m1 (heapStateSets m1 found) lightList frameNum of
                    None \<Rightarrow> None
                  | Some stateset \<Rightarrow>
                      Some (found, m1\<lparr>heapStateSets := (heapStateSets m1)(found := stateset)\<rparr>))
             | None \<Rightarrow>
                 (case generate m1 lightList frameNum of
                    None \<Rightarrow> None
                  | Some (stateset, m2) \<Rightarrow>
                      let a = nextStateSet m2
                      in Some (a, m2\<lparr>heapStateSets := (heapStateSets m2)(a := stateset),
                                     nextStateSet := a + 1,
                                     mStateSetCache :=
                                       upd2 (mStateSetCache m2) (frameNum mod 2)
                                         (fmupd hash a (at2 (mStateSetCache m2) (frameNum mod 2)))\<rparr>)))"

text \<open>What \<open>updateMaxLights\<close> does to one cached state set of the tier \<open>SingleUBO\<close>. The count
  is capped. The array of the old uniform \<open>PointLightIndex\<close> is resized to the count
  (\<open>std::vector::resize\<close> throws for a negative count, which it takes for a huge unsigned one),
  and the old uniform is replaced by \<open>new osg::Uniform("PointLightIndex", newArray)\<close>. No
  constructor of \<open>osg::Uniform\<close> takes a name and an array: the \<open>ref_ptr\<close> converts to a
  pointer and the pointer, which is not null, to \<open>true\<close>, so the constructor called is
  \<open>Uniform(const char*, bool)\<close> and the new uniform is a scalar of type \<open>BOOL\<close> holding
  \<open>true\<close>.\<close>

definition shrinkStateSet :: "int \<Rightarrow> StateSet \<Rightarrow> StateSet option" where
  "shrinkStateSet maxLights stateset =
     (case (uPointLightIndex stateset, uPointLightCount stateset) of
        (Some uOldArray, Some prevCount) \<Rightarrow>
          let newCount = min maxLights prevCount
          in if newCount < 0 then None
             else Some (stateset\<lparr>uPointLightCount := Some newCount,
                                 uPointLightIndex :=
                                   Some \<lparr>uniformType = BoolUniform, intArray = [1]\<rparr>\<rparr>)
      | _ \<Rightarrow> None)"

text \<open>What it does to one of the tier \<open>PerObjectUniform\<close>:
  \<open>LightStateAttributePerObjectUniform::resize\<close> on its attribute.\<close>

definition resizeAttribute :: "int \<Rightarrow> StateSet \<Rightarrow> StateSet option" where
  "resizeAttribute numLights stateset =
     (case attributes stateset of
        [LightStateAttributePerObjectUniform lights] \<Rightarrow>
          Some (stateset\<lparr>attributes :=
                  [LightStateAttributePerObjectUniform
                     (take (min (nat (to_size_t numLights)) (length lights)) lights)]\<rparr>)
      | _ \<Rightarrow> None)"

text \<open>\<open>LightManager::updateMaxLights\<close>, with the setting \<open>"max lights"\<close> and the two limits of the
  header as parameters. Every state set in either cache is adjusted, then both caches are
  cleared. The uniform \<open>LightBuffer\<close> of the manager's own state set is not part of the model.\<close>

definition updateMaxLights :: "int \<Rightarrow> int \<Rightarrow> int \<Rightarrow> 'mat LightManager \<Rightarrow> 'mat LightManager option" where
  "updateMaxLights setting mMaxLightsLowerLimit mMaxLightsUpperLimit mgr =
     (if getLightingMethod mgr = FFP then Some mgr
      else
        let targetLights = clamp setting mMaxLightsLowerLimit mMaxLightsUpperLimit;
            m1 = setMaxLights mgr targetLights;
            cached = fmran (at2 (mStateSetCache m1) 0) |\<union>| fmran (at2 (mStateSetCache m1) 1);
            adjust = (if getLightingMethod m1 = PerObjectUniform
                      then resizeAttribute (getMaxLights m1)
                      else shrinkStateSet (getMaxLights m1))
        in if fBall cached (\<lambda>a. adjust (heapStateSets m1 a) \<noteq> None)
           then Some (m1\<lparr>heapStateSets :=
                           (\<lambda>a. if a |\<in>| cached then the (adjust (heapStateSets m1 a))
                                else heapStateSets m1 a),
                         mStateSetCache := (fmempty, fmempty)\<rparr>)
           else None)"

section \<open>The sun record and the layout of the light buffers\<close>

text \<open>\<open>LightManagerCullCallback::operator()\<close>, once per frame number: the manager afterwards
  and the frame number that the callback remembers. In the tier \<open>SingleUBO\<close> the colours and
  the position of the sun go to record 0 of the light buffer of the frame. In the tier
  \<open>PerObjectUniform\<close> they go to the sunlight matrix of the frame, which is not part of the
  model. In the tier \<open>FFP\<close> there is no light buffer to write to: the pointer is null
  (\<open>None\<close>). The uniform buffer binding that the callback puts on the manager's own state set
  is not part of the model.\<close>

definition LightManagerCullCallback ::
  "'mat Externals \<Rightarrow> 'mat LightManager \<Rightarrow> nat \<Rightarrow> nat \<Rightarrow> ('mat LightManager \<times> nat) option" where
  "LightManagerCullCallback ext mgr lastFrameNumber traversalNum =
     (if lastFrameNumber \<noteq> traversalNum
      then
        case getSunlight mgr of
          None \<Rightarrow> Some (mgr, traversalNum)
        | Some sun \<Rightarrow>
            if getLightingMethod mgr = PerObjectUniform then Some (mgr, traversalNum)
            else if getLightingMethod mgr = FFP then None
            else
              let buf = setCachedSunPos (getLightBuffer mgr traversalNum) (position sun)
              in do {
                b1 \<leftarrow> setAmbient ext buf 0 (ambient sun);
                b2 \<leftarrow> setDiffuse ext b1 0 (diffuse sun);
                b3 \<leftarrow> setSpecular ext b2 0 (specular sun);
                Some (setLightBuffer mgr traversalNum b3, traversalNum)
              }
      else Some (mgr, lastFrameNumber))"

text \<open>What \<open>LightManagerStateAttribute::initSharedLayout\<close> asks OpenGL for: the size of the
  uniform block, the array stride, and the offsets of the three members of a record. The size
  and the stride are \<open>-1\<close> where OpenGL leaves the variable alone.\<close>

record SharedLayout =
  blockDataSize :: int
  arrayStride :: int
  packedColorsOffset :: int
  positionOffset :: int
  attenuationOffset :: int

text \<open>\<open>LightManagerStateAttribute::initSharedLayout\<close>: both light buffers are laid out
  anew.\<close>

definition initSharedLayout :: "'mat LightManager \<Rightarrow> SharedLayout \<Rightarrow> 'mat LightManager option" where
  "initSharedLayout mgr q =
     do {
       b0 \<leftarrow> configureLayout (getLightBuffer mgr 0) (packedColorsOffset q) (positionOffset q)
               (attenuationOffset q) (blockDataSize q) (arrayStride q);
       b1 \<leftarrow> configureLayout (getLightBuffer (setLightBuffer mgr 0 b0) 1) (packedColorsOffset q)
               (positionOffset q) (attenuationOffset q) (blockDataSize q) (arrayStride q);
       Some (setLightBuffer (setLightBuffer mgr 0 b0) 1 b1)
     }"

text \<open>\<open>LightManagerStateAttribute::apply\<close>: the manager and the flag \<open>mInitLayout\<close> afterwards.
  \<open>activeUniformBlocks\<close> and \<open>q\<close> are what OpenGL answers, \<open>frameNumber\<close> and \<open>viewMatrix\<close>
  are the frame number and the initial view matrix of the \<open>osg::State\<close>.\<close>

definition LightManagerStateAttribute_apply ::
  "'mat Externals \<Rightarrow> 'mat LightManager \<Rightarrow> bool \<Rightarrow> int \<Rightarrow> SharedLayout \<Rightarrow> nat \<Rightarrow> 'mat \<Rightarrow>
   ('mat LightManager \<times> bool) option" where
  "LightManagerStateAttribute_apply ext mgr mInitLayout activeUniformBlocks q frameNumber viewMatrix =
     do {
       (m1, initLayout) \<leftarrow>
         (if \<not> mInitLayout \<and> activeUniformBlocks > 0
          then map_option (\<lambda>m. (m, True)) (initSharedLayout mgr q)
          else Some (mgr, mInitLayout));
       b \<leftarrow> uploadCachedSunPos ext (getLightBuffer m1 frameNumber) viewMatrix;
       Some (setLightBuffer m1 frameNumber b, initLayout)
     }"

section \<open>The cull callback of a drawable\<close>

text \<open>\<open>sortLights\<close>: ascending in distance squared minus radius squared times the illumination
  bias 81.\<close>

definition sortLightsKey :: "LightSourceViewBound \<Rightarrow> real" where
  "sortLightsKey l = length2 (center (mViewBound l)) - radius2 (mViewBound l) * 81"

definition sortLights :: "LightSourceViewBound \<Rightarrow> LightSourceViewBound \<Rightarrow> bool" where
  "sortLights left right = (sortLightsKey left < sortLightsKey right)"

text \<open>What the callback reads from the \<open>osgUtil::CullVisitor\<close>. \<open>cullingFront cv bs\<close> stands for
  \<open>cv->getModelViewCullingStack().front().isCulled(bs)\<close>.\<close>

record 'mat CullVisitor =
  traversalNumber :: nat
  traversalMask :: "32 word"
  currentCamera :: Camera
  initialViewMatrix :: 'mat
  modelViewMatrix :: 'mat
  cullingFront :: "BoundingSphere \<Rightarrow> bool"

text \<open>\<open>LightListCallback\<close>. The light list holds pointers into the list of the manager; the
  model holds the elements. The manager is taken as resolved (\<open>mLightManager\<close> is not null);
  when none is found \<open>pushLightState\<close> returns false at once.\<close>

record LightListCallback =
  mLastFrameNumber :: nat
  mLightList :: "LightSourceViewBound list"
  mIgnoredLightSources :: "nat set"

text \<open>The block of \<open>pushLightState\<close> that recomputes the light list once per frame number.
  \<open>nodeBound\<close> is the bound computed for the node (the union of the bounds of the children of a
  transform, the bound of the node otherwise) before the model-view transformation.\<close>

definition refreshLightList ::
  "'mat Externals \<Rightarrow> LightListCallback \<Rightarrow> 'mat LightManager \<Rightarrow> BoundingSphere \<Rightarrow> 'mat CullVisitor \<Rightarrow>
   LightListCallback \<times> 'mat LightManager" where
  "refreshLightList ext cb mgr nodeBound cv =
     (if mLastFrameNumber cb \<noteq> traversalNumber cv
      then
        let cb1 = cb\<lparr>mLastFrameNumber := traversalNumber cv\<rparr>
        in case getLightsInViewSpace ext mgr (currentCamera cv) (initialViewMatrix cv)
                  (mLastFrameNumber cb1) of
             (lights, m1) \<Rightarrow>
               let nb = transformBoundingSphere ext (modelViewMatrix cv) nodeBound
               in (cb1\<lparr>mLightList :=
                         filter (\<lambda>l. mLightSource l \<notin> mIgnoredLightSources cb1
                                      \<and> intersects ext (mViewBound l) nb) lights\<rparr>,
                   m1)
      else (cb, mgr))"

text \<open>The bounding sphere tested against the culling set: the view bound with its radius
  doubled.\<close>

definition doubledBound :: "LightSourceViewBound \<Rightarrow> BoundingSphere" where
  "doubledBound l = (mViewBound l)\<lparr>radius := radius (mViewBound l) * 2\<rparr>"

text \<open>The loop that removes lights culled by the camera, from the iterator \<open>it\<close> on:
  \<open>before\<close> is the number of elements in front of \<open>it\<close>, the list is the rest. The loop ends
  at the end of the list or when the list has come down to \<open>maxLights\<close> elements.\<close>

fun cullLights ::
  "(BoundingSphere \<Rightarrow> bool) \<Rightarrow> nat \<Rightarrow> nat \<Rightarrow> LightSourceViewBound list \<Rightarrow> LightSourceViewBound list" where
  "cullLights isCulled maxLights before [] = []"
| "cullLights isCulled maxLights before (l # rest) =
     (if before + length (l # rest) > maxLights
      then
        if isCulled (doubledBound l)
        then cullLights isCulled maxLights before rest
        else l # cullLights isCulled maxLights (before + 1) rest
      else l # rest)"

text \<open>The loop \<open>while (lightList.size() > maxLights) lightList.pop_back()\<close>.\<close>

function popToBudget :: "nat \<Rightarrow> 'a list \<Rightarrow> 'a list" where
  "popToBudget maxLights xs =
     (if length xs > maxLights then popToBudget maxLights (butlast xs) else xs)"
  by pat_completeness auto
termination
  by (relation "measure (\<lambda>(maxLights, xs). length xs)") auto

declare popToBudget.simps [simp del]

text \<open>The usable budget \<open>size_t maxLights = getMaxLights() - getStartLight()\<close>.\<close>

definition usableBudget :: "'mat LightManager \<Rightarrow> nat" where
  "usableBudget mgr = nat (to_size_t (getMaxLights mgr - getStartLight mgr))"

text \<open>The branch \<open>if (mLightList.size() > maxLights)\<close>: the list for which the state set is
  requested.\<close>

definition limitLightList ::
  "'mat Externals \<Rightarrow> 'mat CullVisitor \<Rightarrow> nat \<Rightarrow> LightSourceViewBound list \<Rightarrow> LightSourceViewBound list" where
  "limitLightList ext cv maxLights lights =
     (let lightList = cullLights (cullingFront cv) maxLights 0 lights
      in if length lightList > maxLights
         then popToBudget maxLights (stdSort ext sortLights lightList)
         else lightList)"

text \<open>\<open>LightListCallback::pushLightState\<close>: whether a state set was pushed, the callback and
  the manager afterwards, and the address of the state set pushed.\<close>

definition pushLightState ::
  "'mat Externals \<Rightarrow> LightListCallback \<Rightarrow> 'mat LightManager \<Rightarrow> BoundingSphere \<Rightarrow> 'mat CullVisitor \<Rightarrow>
   (bool \<times> LightListCallback \<times> 'mat LightManager \<times> nat option) option" where
  "pushLightState ext cb mgr nodeBound cv =
     (if ucast (traversalMask cv) AND mLightingMask mgr = 0
      then Some (False, cb, mgr, None)
      else
        case refreshLightList ext cb mgr nodeBound cv of
          (cb1, m1) \<Rightarrow>
            if mLightList cb1 \<noteq> []
            then
              let maxLights = usableBudget m1;
                  lightList = (if length (mLightList cb1) > maxLights
                               then limitLightList ext cv maxLights (mLightList cb1)
                               else mLightList cb1)
              in case getLightListStateSet ext m1 lightList (traversalNumber cv)
                        (initialViewMatrix cv) of
                   None \<Rightarrow> None
                 | Some (stateset, m2) \<Rightarrow> Some (True, cb1, m2, Some stateset)
            else Some (False, cb1, m1, None))"

section \<open>The life of a manager in the tier SingleUBO\<close>

text \<open>The states that a manager of the tier \<open>SingleUBO\<close> reaches from one with empty state set
  caches, as the constructors leave them, when the light lists passed to
  \<open>getLightListStateSet\<close> have their sequences of identifiers in \<open>L\<close>. A step is a call of a
  member function of the manager, a run of the cull callback or of the state attribute of the
  manager, or a change that other code makes to the light sources of the scene graph.
  \<open>pushLightState\<close> is a call of \<open>getLightsInViewSpace\<close> followed by one of
  \<open>getLightListStateSet\<close>. The tier is set by the constructor and stays.\<close>

inductive reachable :: "'mat Externals \<Rightarrow> int list set \<Rightarrow> 'mat LightManager \<Rightarrow> bool"
  for ext :: "'mat Externals" and L :: "int list set" where
  constructed:
    "mLightingMethod mgr = SingleUBO \<Longrightarrow> mStateSetCache mgr = (fmempty, fmempty) \<Longrightarrow>
     reachable ext L mgr"
| updated:
    "reachable ext L mgr \<Longrightarrow> reachable ext L (update mgr frameNum)"
| lightAdded:
    "reachable ext L mgr \<Longrightarrow> reachable ext L (addLight getTrans mgr lightSource worldMat frameNum)"
| viewed:
    "reachable ext L mgr \<Longrightarrow>
     reachable ext L (snd (getLightsInViewSpace ext mgr camera viewMatrix frameNum))"
| requested:
    "reachable ext L mgr \<Longrightarrow> map (lightId mgr) lightList \<in> L \<Longrightarrow>
     getLightListStateSet ext mgr lightList frameNum viewMatrix = Some (s, mgr') \<Longrightarrow>
     reachable ext L mgr'"
| settingsChanged:
    "reachable ext L mgr \<Longrightarrow> reachable ext L (updateSettings st mgr)"
| maxLightsChanged:
    "reachable ext L mgr \<Longrightarrow> updateMaxLights setting lowerLimit upperLimit mgr = Some mgr' \<Longrightarrow>
     reachable ext L mgr'"
| maxLightsSet:
    "reachable ext L mgr \<Longrightarrow> reachable ext L (setMaxLights mgr v)"
| startLightSet:
    "reachable ext L mgr \<Longrightarrow> reachable ext L (setStartLight mgr start)"
| lightingMaskSet:
    "reachable ext L mgr \<Longrightarrow> reachable ext L (setLightingMask mgr m)"
| sunlightSet:
    "reachable ext L mgr \<Longrightarrow> reachable ext L (setSunlight mgr sun)"
| pointLightWritten:
    "reachable ext L mgr \<Longrightarrow>
     updateGPUPointLight ext mgr index lightSource frameNum viewMatrix = Some mgr' \<Longrightarrow>
     reachable ext L mgr'"
| sunRecorded:
    "reachable ext L mgr \<Longrightarrow>
     LightManagerCullCallback ext mgr lastFrameNumber traversalNum = Some (mgr', lastFrameNumber') \<Longrightarrow>
     reachable ext L mgr'"
| attributeApplied:
    "reachable ext L mgr \<Longrightarrow>
     LightManagerStateAttribute_apply ext mgr mInitLayout activeUniformBlocks q frameNumber viewMatrix
       = Some (mgr', mInitLayout') \<Longrightarrow>
     reachable ext L mgr'"
| lightSourcesChanged:
    "reachable ext L mgr \<Longrightarrow> reachable ext L (mgr\<lparr>heapLights := heap\<rparr>)"

text \<open>What holds of the cached state sets in such a state: each was created by the manager,
  carries both uniforms, and its \<open>PointLightCount\<close> is at most the length of a sequence of
  identifiers in \<open>L\<close> whose hash is the key of the entry.\<close>

definition cacheInv :: "'mat Externals \<Rightarrow> int list set \<Rightarrow> 'mat LightManager \<Rightarrow> bool" where
  "cacheInv ext L mgr =
     (mLightingMethod mgr = SingleUBO \<and>
      (\<forall>p h a. fmlookup (at2 (mStateSetCache mgr) p) h = Some a \<longrightarrow>
         a < nextStateSet mgr \<and>
         uPointLightIndex (heapStateSets mgr a) \<noteq> None \<and>
         (\<exists>ids cnt. ids \<in> L \<and> lightListHash ext ids = h \<and>
            uPointLightCount (heapStateSets mgr a) = Some cnt \<and> cnt \<le> int (length ids))))"

section \<open>The orderings that the specification names\<close>

text \<open>Modelled from the spec: the proximity heuristic of the capacity truncation, "ascending by
  (distance squared - radius squared)", and the illumination heuristic of the cull callback,
  "ascending distance squared - radius squared \<times> bias with a fixed bias constant of 81". The
  distance is that of the centre of the view-space bound from the camera, the origin of view
  space.\<close>

definition proximity :: "LightSourceViewBound \<Rightarrow> real" where
  "proximity l =
     (v3x (center (mViewBound l))) ^ 2 + (v3y (center (mViewBound l))) ^ 2
       + (v3z (center (mViewBound l))) ^ 2 - (radius (mViewBound l)) ^ 2"

definition illumination :: "LightSourceViewBound \<Rightarrow> real" where
  "illumination l =
     (v3x (center (mViewBound l))) ^ 2 + (v3y (center (mViewBound l))) ^ 2
       + (v3z (center (mViewBound l))) ^ 2 - (radius (mViewBound l)) ^ 2 * 81"

text \<open>Modelled from the spec: the test of the cheap rejection, "lights whose doubled bounding
  sphere radius is fully excluded by the current view-frustum culling stack".\<close>

definition rejected :: "'mat CullVisitor \<Rightarrow> LightSourceViewBound \<Rightarrow> bool" where
  "rejected cv l =
     cullingFront cv \<lparr>center = center (mViewBound l), radius = 2 * radius (mViewBound l)\<rparr>"

section \<open>Values to run the model on\<close>

text \<open>Collaborators for a scene in which every matrix is a translation, given by its offset:
  the product of two matrices adds the offsets, and a bounding sphere is transformed by moving
  its centre. \<open>std::sort\<close> is the insertion sort.\<close>

definition vec3_add :: "Vec3f \<Rightarrow> Vec3f \<Rightarrow> Vec3f" where
  "vec3_add a b = \<lparr>v3x = v3x a + v3x b, v3y = v3y a + v3y b, v3z = v3z a + v3z b\<rparr>"

definition translationExternals :: "Vec3f Externals" where
  "translationExternals =
     \<lparr>hashCombine = (\<lambda>seed i. seed * 31 + word_of_int i + 1),
      asRGBA_osg = (\<lambda>v. 0),
      asABGR_osg = (\<lambda>v. 0),
      floatBits = (\<lambda>r. 0),
      matMult = vec3_add,
      vecMult = (\<lambda>v m. \<lparr>v4x = v4x v + v3x m, v4y = v4y v + v3y m, v4z = v4z v + v3z m, v4w = v4w v\<rparr>),
      transformBoundingSphere = (\<lambda>m b. b\<lparr>center := vec3_add (center b) m\<rparr>),
      intersects = (\<lambda>a b. length2 (vec3_add (center a) \<lparr>v3x = - v3x (center b), v3y = - v3y (center b), v3z = - v3z (center b)\<rparr>)
                          \<le> (radius a + radius b) * (radius a + radius b)),
      stdSort = insertionSort\<rparr>"

definition whiteLight :: Light where
  "whiteLight =
     \<lparr>diffuse = Rgba \<lparr>v4x = 1, v4y = 1, v4z = 1, v4w = 1\<rparr>,
      ambient = \<lparr>v4x = 0, v4y = 0, v4z = 0, v4w = 1\<rparr>,
      specular = \<lparr>v4x = 0, v4y = 0, v4z = 0, v4w = 1\<rparr>,
      position = \<lparr>v4x = 0, v4y = 0, v4z = 0, v4w = 1\<rparr>,
      constantAttenuation = 1, linearAttenuation = 0, quadraticAttenuation = 0, userRadius = 0\<rparr>"

text \<open>A manager in the tier \<open>SingleUBO\<close> with eight lights at most, a fade between the distances
  50 and 100, no sun, and nothing collected or cached. The light source at address \<open>a\<close> has the
  identifier \<open>a\<close>, radius 1 and white diffuse light.\<close>

definition freshManager :: "Vec3f LightManager" where
  "freshManager =
     \<lparr>mStartLight = 0,
      mLightingMask = - 1,
      mSun = None,
      mLightingMethod = SingleUBO,
      mMaxLights = 8,
      mPointLightRadiusMultiplier = 1,
      mPointLightFadeEnd = 100,
      mPointLightFadeStart = 50,
      mLights = [],
      mLightsInViewSpace = fmempty,
      mLightIndexMaps = (fmempty, fmempty),
      mStateSetCache = (fmempty, fmempty),
      mLightBuffers = (LightBuffer_init LittleEndian getMaxLightsInScene,
                       LightBuffer_init LittleEndian getMaxLightsInScene),
      mDummies = [],
      heapLights = (\<lambda>a. \<lparr>mId = int a, mRadius = 1, mLight = (whiteLight, whiteLight)\<rparr>),
      heapStateSets = (\<lambda>a. \<lparr>attributes = [], modes = [], uPointLightIndex = None, uPointLightCount = None\<rparr>),
      nextStateSet = 0\<rparr>"

definition mainCamera :: Camera where
  "mainCamera = \<lparr>camAddr = 7, camName = ''Main''\<rparr>"

text \<open>The fresh manager after one light source, the one at address 3, has been registered 75
  units away from the camera.\<close>

definition oneLightManager :: "Vec3f LightManager" where
  "oneLightManager =
     freshManager\<lparr>mLights := [\<lparr>tLightSource = 3, mWorldMatrix = \<lparr>v3x = 75, v3y = 0, v3z = 0\<rparr>\<rparr>]\<rparr>"

text \<open>The view-space bound of the light source at address \<open>a\<close>, at distance \<open>d\<close> on the first
  axis and of radius \<open>r\<close>, and a registration of the light source \<open>a\<close> at that distance.\<close>

definition lightAt :: "nat \<Rightarrow> real \<Rightarrow> real \<Rightarrow> LightSourceViewBound" where
  "lightAt a d r = \<lparr>mLightSource = a, mViewBound = \<lparr>center = \<lparr>v3x = d, v3y = 0, v3z = 0\<rparr>, radius = r\<rparr>\<rparr>"

definition registeredAt :: "nat \<Rightarrow> real \<Rightarrow> Vec3f LightSourceTransform" where
  "registeredAt a d = \<lparr>tLightSource = a, mWorldMatrix = \<lparr>v3x = d, v3y = 0, v3z = 0\<rparr>\<rparr>"

text \<open>A manager of the tier \<open>SingleUBO\<close> without fading (a maximum light distance of 0) in
  which 342 light sources have been registered in this frame and no list has been collected
  yet: first one at distance 2000; then the light source 1, at distance 1000 and of radius
  1000; then two at the distances 400 and 350; then 338 at the distances 2 to 339. All but
  the light source 1 have the radius 1.\<close>

definition crowdedManager :: "Vec3f LightManager" where
  "crowdedManager =
     freshManager
       \<lparr>mPointLightFadeEnd := 0, mPointLightFadeStart := 0,
        mLights := [registeredAt 0 2000, registeredAt 1 1000, registeredAt 400 400, registeredAt 350 350]
                   @ map (\<lambda>i. registeredAt i (real i)) [2 ..< 340],
        heapLights := (\<lambda>a. \<lparr>mId = int a, mRadius = (if a = 1 then 1000 else 1),
                              mLight = (whiteLight, whiteLight)\<rparr>)\<rparr>"

text \<open>The list collected from it for a camera at the origin.\<close>

definition crowd :: "LightSourceViewBound list" where
  "crowd = [lightAt 0 2000 1, lightAt 1 1000 1000, lightAt 400 400 1, lightAt 350 350 1]
           @ map (\<lambda>i. lightAt i (real i) 1) [2 ..< 340]"

text \<open>The fresh manager in the tier \<open>PerObjectUniform\<close>, and a light list of one entry.\<close>

definition perObjectManager :: "Vec3f LightManager" where
  "perObjectManager = freshManager\<lparr>mLightingMethod := PerObjectUniform\<rparr>"

definition oneLightList :: "LightSourceViewBound list" where
  "oneLightList = [lightAt 3 75 1]"

text \<open>The fresh manager with buffers of two records and with a sun, and settings with a
  maximum light distance of 100 and a fade start of 1.\<close>

definition smallManager :: "Vec3f LightManager" where
  "smallManager =
     freshManager\<lparr>mLightBuffers := (LightBuffer_init LittleEndian 2, LightBuffer_init LittleEndian 2),
                  mSun := Some whiteLight\<rparr>"

definition lateFadeSettings :: Settings where
  "lateFadeSettings =
     \<lparr>lightBoundsMultiplier = 1, maximumLightDistance = 100, lightFadeStart = 1, maxLightsSetting = 8\<rparr>"

text \<open>A light buffer of two records under the layout of tightly packed records, as the
  constructor leaves it, and the layout that OpenGL reports for such records: 48 bytes for
  each, no padding.\<close>

definition packedBuffer :: "LightBuffer \<Rightarrow> bool" where
  "packedBuffer b = (mOffsets b = Offsets_default \<and> mCount b = 2 \<and> 24 \<le> length (mData b))"

definition packedLayout :: SharedLayout where
  "packedLayout =
     \<lparr>blockDataSize = 96, arrayStride = 0, packedColorsOffset = 0, positionOffset = 16,
      attenuationOffset = 32\<rparr>"

text \<open>A cull visitor in frame 4 whose front culling set rejects the spheres that lie
  entirely beyond the distance 25 on the first axis.\<close>

definition nearVisitor :: "Vec3f CullVisitor" where
  "nearVisitor =
     \<lparr>traversalNumber = 4, traversalMask = 1, currentCamera = mainCamera,
      initialViewMatrix = \<lparr>v3x = 0, v3y = 0, v3z = 0\<rparr>,
      modelViewMatrix = \<lparr>v3x = 0, v3y = 0, v3z = 0\<rparr>,
      cullingFront = (\<lambda>bs. v3x (center bs) - radius bs > 25)\<rparr>"

text \<open>A callback that has computed its light list in frame 4: a light at distance 40, one at
  distance 20, both of radius 1, and one at distance 30 of radius 3. With its radius doubled
  the last one reaches back to the distance 24.\<close>

definition threeLightCallback :: LightListCallback where
  "threeLightCallback =
     \<lparr>mLastFrameNumber = 4, mLightList = [lightAt 1 40 1, lightAt 2 20 1, lightAt 3 30 3],
      mIgnoredLightSources = {}\<rparr>"

text \<open>The fresh manager in the tier \<open>PerObjectUniform\<close> with a budget of one light.\<close>

definition oneSlotManager :: "Vec3f LightManager" where
  "oneSlotManager = perObjectManager\<lparr>mMaxLights := 2, mStartLight := 1\<rparr>"

text \<open>A callback whose light list begins with two lights beyond the distance 25, and the
  fresh manager in the tier \<open>PerObjectUniform\<close> with a budget of two lights.\<close>

definition farFirstCallback :: LightListCallback where
  "farFirstCallback =
     \<lparr>mLastFrameNumber = 4, mLightList = [lightAt 1 30 1, lightAt 2 40 1, lightAt 3 10 1],
      mIgnoredLightSources = {}\<rparr>"

definition twoSlotManager :: "Vec3f LightManager" where
  "twoSlotManager = perObjectManager\<lparr>mMaxLights := 3, mStartLight := 1\<rparr>"

section \<open>Re-laying out the packed light buffer\<close>

text \<open>Reading and writing runs of floats.\<close>

lemma read_at_length: "read_at src off n = Some q \<Longrightarrow> length q = n"
  by (auto simp: read_at_def split: if_splits)

lemma memcpy_to_length: "memcpy_to dst off q = Some d \<Longrightarrow> length d = length dst"
  by (auto simp: memcpy_to_def split: if_splits)

lemma memcpy_to_read_same:
  "memcpy_to dst off q = Some d \<Longrightarrow> read_at d off (length q) = Some q"
  by (auto simp: memcpy_to_def read_at_def split: if_splits)

lemma memcpy_to_read_other:
  assumes "memcpy_to dst off q = Some d"
    and "m + int n \<le> off \<or> off + int (length q) \<le> m"
  shows "read_at d m n = read_at dst m n"
proof (cases "0 \<le> m \<and> m + int n \<le> int (length dst)")
  case False
  then show ?thesis using assms memcpy_to_length[OF assms(1)] by (auto simp: read_at_def)
next
  case True
  from assms(1) have off: "0 \<le> off" "off + int (length q) \<le> int (length dst)"
    and d: "d = take (nat off) dst @ q @ drop (nat off + length q) dst"
    by (auto simp: memcpy_to_def split: if_splits)
  have "take n (drop (nat m) d) = take n (drop (nat m) dst)"
  proof (rule nth_equalityI)
    show "length (take n (drop (nat m) d)) = length (take n (drop (nat m) dst))"
      using memcpy_to_length[OF assms(1)] by simp
  next
    fix k assume "k < length (take n (drop (nat m) d))"
    then have k: "k < n" "nat m + k < length dst"
      using memcpy_to_length[OF assms(1)] by auto
    have "d ! (nat m + k) = dst ! (nat m + k)"
      using assms(2) True off k unfolding d
      by (auto simp: nth_append min_def nat_add_distrib)
    then show "take n (drop (nat m) d) ! k = take n (drop (nat m) dst) ! k"
      using k memcpy_to_length[OF assms(1)] by simp
  qed
  then show ?thesis using True memcpy_to_length[OF assms(1)] by (simp add: read_at_def)
qed

lemma copyRecord_frame:
  assumes "copyRecord old new src i dst = Some d"
    and "\<forall>s\<in>copiedSlots. quadsApart m (Offsets_get new i s)"
  shows "read_at d m 4 = read_at dst m 4"
proof -
  from assms(1) obtain q1 d1 q2 d2 q3 where
    r1: "read_at src (Offsets_get old i Diffuse) 4 = Some q1"
    and w1: "memcpy_to dst (Offsets_get new i Diffuse) q1 = Some d1"
    and r2: "read_at src (Offsets_get old i Position) 4 = Some q2"
    and w2: "memcpy_to d1 (Offsets_get new i Position) q2 = Some d2"
    and r3: "read_at src (Offsets_get old i AttenuationRadius) 4 = Some q3"
    and w3: "memcpy_to d2 (Offsets_get new i AttenuationRadius) q3 = Some d"
    by (auto simp: copyRecord_def split: bind_splits)
  have l: "length q1 = 4" "length q2 = 4" "length q3 = 4"
    using r1 r2 r3 by (auto dest: read_at_length)
  have a: "quadsApart m (Offsets_get new i Diffuse)" "quadsApart m (Offsets_get new i Position)"
    "quadsApart m (Offsets_get new i AttenuationRadius)"
    using assms(2) by (auto simp: copiedSlots_def)
  have "read_at d m 4 = read_at d2 m 4"
    using memcpy_to_read_other[OF w3, of m 4] a(3) l by (auto simp: quadsApart_def)
  also have "\<dots> = read_at d1 m 4"
    using memcpy_to_read_other[OF w2, of m 4] a(2) l by (auto simp: quadsApart_def)
  also have "\<dots> = read_at dst m 4"
    using memcpy_to_read_other[OF w1, of m 4] a(1) l by (auto simp: quadsApart_def)
  finally show ?thesis .
qed

lemma copyRecord_own:
  assumes "copyRecord old new src i dst = Some d"
    and "\<forall>s\<in>copiedSlots. \<forall>t\<in>copiedSlots. s \<noteq> t \<longrightarrow>
           quadsApart (Offsets_get new i s) (Offsets_get new i t)"
    and "slot \<in> copiedSlots"
  shows "read_at d (Offsets_get new i slot) 4 = read_at src (Offsets_get old i slot) 4"
proof -
  from assms(1) obtain q1 d1 q2 d2 q3 where
    r1: "read_at src (Offsets_get old i Diffuse) 4 = Some q1"
    and w1: "memcpy_to dst (Offsets_get new i Diffuse) q1 = Some d1"
    and r2: "read_at src (Offsets_get old i Position) 4 = Some q2"
    and w2: "memcpy_to d1 (Offsets_get new i Position) q2 = Some d2"
    and r3: "read_at src (Offsets_get old i AttenuationRadius) 4 = Some q3"
    and w3: "memcpy_to d2 (Offsets_get new i AttenuationRadius) q3 = Some d"
    by (auto simp: copyRecord_def split: bind_splits)
  have l: "length q1 = 4" "length q2 = 4" "length q3 = 4"
    using r1 r2 r3 by (auto dest: read_at_length)
  have dp: "quadsApart (Offsets_get new i Diffuse) (Offsets_get new i Position)"
    and da: "quadsApart (Offsets_get new i Diffuse) (Offsets_get new i AttenuationRadius)"
    and pa: "quadsApart (Offsets_get new i Position) (Offsets_get new i AttenuationRadius)"
    using assms(2) by (auto simp: copiedSlots_def)
  have s1: "read_at d1 (Offsets_get new i Diffuse) 4 = Some q1"
    using memcpy_to_read_same[OF w1] l by simp
  have s2: "read_at d2 (Offsets_get new i Position) 4 = Some q2"
    using memcpy_to_read_same[OF w2] l by simp
  have s3: "read_at d (Offsets_get new i AttenuationRadius) 4 = Some q3"
    using memcpy_to_read_same[OF w3] l by simp
  consider "slot = Diffuse" | "slot = Position" | "slot = AttenuationRadius"
    using assms(3) by (auto simp: copiedSlots_def)
  then show ?thesis
  proof cases
    case 1
    have "read_at d (Offsets_get new i Diffuse) 4 = read_at d2 (Offsets_get new i Diffuse) 4"
      using memcpy_to_read_other[OF w3, of "Offsets_get new i Diffuse" 4] da l
      by (auto simp: quadsApart_def)
    also have "\<dots> = read_at d1 (Offsets_get new i Diffuse) 4"
      using memcpy_to_read_other[OF w2, of "Offsets_get new i Diffuse" 4] dp l
      by (auto simp: quadsApart_def)
    finally show ?thesis using 1 s1 r1 by simp
  next
    case 2
    have "read_at d (Offsets_get new i Position) 4 = read_at d2 (Offsets_get new i Position) 4"
      using memcpy_to_read_other[OF w3, of "Offsets_get new i Position" 4] pa l
      by (auto simp: quadsApart_def)
    then show ?thesis using 2 s2 r2 by simp
  next
    case 3
    then show ?thesis using s3 r3 by simp
  qed
qed

lemma copyRecords_frame:
  "copyRecords old new src idx dst = Some d \<Longrightarrow>
   \<forall>i\<in>set idx. \<forall>s\<in>copiedSlots. quadsApart m (Offsets_get new i s) \<Longrightarrow>
   read_at d m 4 = read_at dst m 4"
proof (induction idx arbitrary: dst)
  case Nil
  then show ?case by simp
next
  case (Cons i rest)
  from Cons.prems(1) obtain d1 where c: "copyRecord old new src i dst = Some d1"
    and r: "copyRecords old new src rest d1 = Some d"
    by (auto split: option.splits)
  have "read_at d m 4 = read_at d1 m 4"
    using Cons.IH[OF r] Cons.prems(2) by simp
  also have "\<dots> = read_at dst m 4"
    using copyRecord_frame[OF c] Cons.prems(2) by simp
  finally show ?case .
qed

lemma copyRecords_own:
  "copyRecords old new src idx dst = Some d \<Longrightarrow> distinct idx \<Longrightarrow>
   \<forall>i\<in>set idx. \<forall>j\<in>set idx. \<forall>s\<in>copiedSlots. \<forall>t\<in>copiedSlots.
      (i, s) \<noteq> (j, t) \<longrightarrow> quadsApart (Offsets_get new i s) (Offsets_get new j t) \<Longrightarrow>
   i \<in> set idx \<Longrightarrow> slot \<in> copiedSlots \<Longrightarrow>
   read_at d (Offsets_get new i slot) 4 = read_at src (Offsets_get old i slot) 4"
proof (induction idx arbitrary: dst)
  case Nil
  then show ?case by simp
next
  case (Cons k rest)
  from Cons.prems(1) obtain d1 where c: "copyRecord old new src k dst = Some d1"
    and r: "copyRecords old new src rest d1 = Some d"
    by (auto split: option.splits)
  show ?case
  proof (cases "i = k")
    case True
    have nin: "k \<notin> set rest" using Cons.prems(2) by simp
    have "\<forall>j\<in>set rest. \<forall>t\<in>copiedSlots. quadsApart (Offsets_get new i slot) (Offsets_get new j t)"
    proof (intro ballI)
      fix j t assume "j \<in> set rest" "t \<in> copiedSlots"
      moreover from this nin True have "(i, slot) \<noteq> (j, t)" by auto
      moreover have "i \<in> set (k # rest)" "j \<in> set (k # rest)"
        using True \<open>j \<in> set rest\<close> by simp_all
      ultimately show "quadsApart (Offsets_get new i slot) (Offsets_get new j t)"
        using Cons.prems(3)[rule_format, of i j slot t] Cons.prems(5) by simp
    qed
    then have "read_at d (Offsets_get new i slot) 4 = read_at d1 (Offsets_get new i slot) 4"
      using copyRecords_frame[OF r] by blast
    moreover have "read_at d1 (Offsets_get new k slot) 4 = read_at src (Offsets_get old k slot) 4"
    proof (rule copyRecord_own[OF c _ Cons.prems(5)], intro ballI impI)
      fix s t assume "s \<in> copiedSlots" "t \<in> copiedSlots" "s \<noteq> t"
      moreover have "k \<in> set (k # rest)" by simp
      moreover from \<open>s \<noteq> t\<close> have "(k, s) \<noteq> (k, t)" by simp
      ultimately show "quadsApart (Offsets_get new k s) (Offsets_get new k t)"
        using Cons.prems(3)[rule_format, of k k s t] by simp
    qed
    ultimately show ?thesis using True by simp
  next
    case False
    then have "i \<in> set rest" using Cons.prems(4) by simp
    moreover have "distinct rest" using Cons.prems(2) by simp
    moreover have "\<forall>i\<in>set rest. \<forall>j\<in>set rest. \<forall>s\<in>copiedSlots. \<forall>t\<in>copiedSlots.
      (i, s) \<noteq> (j, t) \<longrightarrow> quadsApart (Offsets_get new i s) (Offsets_get new j t)"
    proof (intro ballI impI)
      fix a b s t
      assume "a \<in> set rest" "b \<in> set rest" "s \<in> copiedSlots" "t \<in> copiedSlots"
        "(a, s) \<noteq> (b, t)"
      then show "quadsApart (Offsets_get new a s) (Offsets_get new b t)"
        using Cons.prems(3)[rule_format, of a b s t] by simp
    qed
    ultimately show ?thesis using Cons.IH[OF r] Cons.prems(5) by blast
  qed
qed

lemma set_map_int_upt: "set (map int [0..<nat n]) = {0..<n}"
  by (cases "0 \<le> n") (simp_all add: image_int_atLeastLessThan)

lemma distinct_map_int_upt: "distinct (map int [0..<nat n])"
  by (simp add: distinct_map inj_on_def)

lemma memcpy_to_Some:
  "0 \<le> off \<Longrightarrow> off + int (length q) \<le> int (length dst) \<Longrightarrow> \<exists>d. memcpy_to dst off q = Some d"
  by (simp add: memcpy_to_def)

lemma read_at_Some:
  "0 \<le> off \<Longrightarrow> off + int n \<le> int (length src) \<Longrightarrow> \<exists>q. read_at src off n = Some q"
  by (simp add: read_at_def)

lemma copyRecord_Some:
  assumes "\<forall>s\<in>copiedSlots. 0 \<le> Offsets_get old i s \<and> Offsets_get old i s + 4 \<le> int (length src)"
    and "\<forall>s\<in>copiedSlots. 0 \<le> Offsets_get new i s \<and> Offsets_get new i s + 4 \<le> int (length dst)"
  shows "\<exists>d. copyRecord old new src i dst = Some d \<and> length d = length dst"
proof -
  have o: "\<And>s. s \<in> copiedSlots \<Longrightarrow> \<exists>q. read_at src (Offsets_get old i s) 4 = Some q"
    using assms(1) by (auto intro!: read_at_Some)
  obtain q1 where r1: "read_at src (Offsets_get old i Diffuse) 4 = Some q1"
    using o[of Diffuse] by (auto simp: copiedSlots_def)
  obtain q2 where r2: "read_at src (Offsets_get old i Position) 4 = Some q2"
    using o[of Position] by (auto simp: copiedSlots_def)
  obtain q3 where r3: "read_at src (Offsets_get old i AttenuationRadius) 4 = Some q3"
    using o[of AttenuationRadius] by (auto simp: copiedSlots_def)
  have l: "length q1 = 4" "length q2 = 4" "length q3 = 4"
    using r1 r2 r3 by (auto dest: read_at_length)
  have n: "\<And>s. s \<in> copiedSlots \<Longrightarrow> 0 \<le> Offsets_get new i s \<and> Offsets_get new i s + 4 \<le> int (length dst)"
    using assms(2) by simp
  obtain d1 where w1: "memcpy_to dst (Offsets_get new i Diffuse) q1 = Some d1"
    using memcpy_to_Some[of "Offsets_get new i Diffuse" q1 dst] n[of Diffuse] l
    by (auto simp: copiedSlots_def)
  have l1: "length d1 = length dst" by (rule memcpy_to_length[OF w1])
  obtain d2 where w2: "memcpy_to d1 (Offsets_get new i Position) q2 = Some d2"
    using memcpy_to_Some[of "Offsets_get new i Position" q2 d1] n[of Position] l l1
    by (auto simp: copiedSlots_def)
  have l2: "length d2 = length dst" using memcpy_to_length[OF w2] l1 by simp
  obtain d3 where w3: "memcpy_to d2 (Offsets_get new i AttenuationRadius) q3 = Some d3"
    using memcpy_to_Some[of "Offsets_get new i AttenuationRadius" q3 d2] n[of AttenuationRadius] l l2
    by (auto simp: copiedSlots_def)
  have l3: "length d3 = length dst" using memcpy_to_length[OF w3] l2 by simp
  have "copyRecord old new src i dst = Some d3"
    using r1 r2 r3 w1 w2 w3 by (simp add: copyRecord_def)
  with l3 show ?thesis by simp
qed

lemma copyRecords_Some:
  "\<forall>i\<in>set idx. \<forall>s\<in>copiedSlots. 0 \<le> Offsets_get old i s \<and> Offsets_get old i s + 4 \<le> int (length src) \<Longrightarrow>
   \<forall>i\<in>set idx. \<forall>s\<in>copiedSlots. 0 \<le> Offsets_get new i s \<and> Offsets_get new i s + 4 \<le> int (length dst) \<Longrightarrow>
   \<exists>d. copyRecords old new src idx dst = Some d \<and> length d = length dst"
proof (induction idx arbitrary: dst)
  case Nil
  then show ?case by simp
next
  case (Cons k rest)
  obtain d1 where c: "copyRecord old new src k dst = Some d1" and l: "length d1 = length dst"
    using copyRecord_Some[of old k src new dst] Cons.prems by auto
  have "\<exists>d. copyRecords old new src rest d1 = Some d \<and> length d = length d1"
    using Cons.prems l by (intro Cons.IH) simp_all
  with c l show ?case by auto
qed

lemma length_resizeArray: "length (resizeArray xs n) = n"
  by (simp add: resizeArray_def)

lemma twoRecordBuffer_simps:
  "mCount twoRecordBuffer = 2" "length (mData twoRecordBuffer) = 24"
  "mOffsets twoRecordBuffer = Offsets_default"
  by (simp_all add: twoRecordBuffer_def LightBuffer_init_def)

text \<open>Claim C1, as amended. \<open>configureLayout\<close> keeps the packed values of every record when the
  new layout is a proper one: if the three quadwords (diffuse, position, attenuation) of the
  \<open>mCount\<close> records lie inside the old vector under the old layout, lie inside the resized
  vector under the new layout, and no two of them overlap under the new layout, then the call
  succeeds, installs the new layout, and each of the three quadwords of each record read under
  the new layout holds the floats it held under the old layout.\<close>

theorem configureLayout_keeps_quadwords:
  assumes fits_old: "layoutFits (mOffsets buf) (mCount buf) (length (mData buf))"
    and fits_new: "layoutFits (Offsets_init offsetColors offsetPosition offsetAttenuationRadius stride)
                     (mCount buf) (nat (to_unsigned sz))"
    and sep: "layoutSeparates (Offsets_init offsetColors offsetPosition offsetAttenuationRadius stride)
                     (mCount buf)"
  shows "\<exists>buf'. configureLayout buf offsetColors offsetPosition offsetAttenuationRadius sz stride = Some buf'
           \<and> mOffsets buf' = Offsets_init offsetColors offsetPosition offsetAttenuationRadius stride
           \<and> (\<forall>i\<in>{0..<mCount buf}. \<forall>slot\<in>copiedSlots.
                 read_at (mData buf') (getOffset buf' i slot) 4 = read_at (mData buf) (getOffset buf i slot) 4
                 \<and> read_at (mData buf) (getOffset buf i slot) 4 \<noteq> None)"
proof -
  let ?new = "Offsets_init offsetColors offsetPosition offsetAttenuationRadius stride"
  let ?idx = "map int [0..<nat (mCount buf)]"
  let ?dst = "resizeArray (mData buf) (nat (to_unsigned sz))"
  have "\<exists>d. copyRecords (mOffsets buf) ?new (mData buf) ?idx ?dst = Some d \<and> length d = length ?dst"
    using fits_old fits_new
    by (intro copyRecords_Some) (simp_all only: set_map_int_upt layoutFits_def length_resizeArray)
  then obtain d where c: "copyRecords (mOffsets buf) ?new (mData buf) ?idx ?dst = Some d"
    by blast
  let ?buf' = "buf\<lparr>mData := d, mOffsets := ?new\<rparr>"
  have r: "configureLayout buf offsetColors offsetPosition offsetAttenuationRadius sz stride = Some ?buf'"
    using c by (simp add: configureLayout_def Let_def)
  have s: "\<forall>i\<in>set ?idx. \<forall>j\<in>set ?idx. \<forall>s\<in>copiedSlots. \<forall>t\<in>copiedSlots.
      (i, s) \<noteq> (j, t) \<longrightarrow> quadsApart (Offsets_get ?new i s) (Offsets_get ?new j t)"
    using sep unfolding layoutSeparates_def set_map_int_upt .
  have "\<forall>i\<in>{0..<mCount buf}. \<forall>slot\<in>copiedSlots.
          read_at (mData ?buf') (getOffset ?buf' i slot) 4 = read_at (mData buf) (getOffset buf i slot) 4
          \<and> read_at (mData buf) (getOffset buf i slot) 4 \<noteq> None"
  proof (intro ballI)
    fix i slot assume i: "i \<in> {0..<mCount buf}" and slot: "slot \<in> copiedSlots"
    from i have i': "i \<in> set ?idx" by (simp only: set_map_int_upt)
    have eq: "read_at d (Offsets_get ?new i slot) 4 = read_at (mData buf) (Offsets_get (mOffsets buf) i slot) 4"
      by (rule copyRecords_own[OF c distinct_map_int_upt s i' slot])
    have "\<exists>q. read_at (mData buf) (Offsets_get (mOffsets buf) i slot) 4 = Some q"
      using fits_old i slot by (intro read_at_Some) (auto simp: layoutFits_def)
    with eq show "read_at (mData ?buf') (getOffset ?buf' i slot) 4 = read_at (mData buf) (getOffset buf i slot) 4
          \<and> read_at (mData buf) (getOffset buf i slot) 4 \<noteq> None"
      by (auto simp: getOffset_def)
  qed
  with r show ?thesis by (intro exI[of _ ?buf']) simp
qed

theorem configureLayout_keeps_quadwords_witness:
  "layoutFits (mOffsets twoRecordBuffer) (mCount twoRecordBuffer) (length (mData twoRecordBuffer))
   \<and> layoutFits (Offsets_init 0 16 32 48) (mCount twoRecordBuffer) (nat (to_unsigned 36))
   \<and> layoutSeparates (Offsets_init 0 16 32 48) (mCount twoRecordBuffer)
   \<and> getOffset twoRecordBuffer 1 Position = 16
   \<and> (\<exists>buf'. configureLayout twoRecordBuffer 0 16 32 36 48 = Some buf'
         \<and> getOffset buf' 1 Position = 28
         \<and> read_at (mData buf') (getOffset buf' 1 Position) 4 = Some [17, 18, 19, 20]
         \<and> mData buf' = [1, 2, 3, 4, 5, 6, 7, 8, 9, 10, 11, 12,
                           13, 14, 15, 16, 17, 18, 19, 20, 21, 22, 23, 24,
                           13, 14, 15, 16, 17, 18, 19, 20, 21, 22, 23, 24])"
proof -
  have h1: "layoutFits (mOffsets twoRecordBuffer) (mCount twoRecordBuffer) (length (mData twoRecordBuffer))"
    by (auto simp: twoRecordBuffer_simps layoutFits_def copiedSlots_def Offsets_get_def Offsets_default_def)
  have h2: "layoutFits (Offsets_init 0 16 32 48) (mCount twoRecordBuffer) (nat (to_unsigned 36))"
    by (auto simp: twoRecordBuffer_simps layoutFits_def copiedSlots_def Offsets_get_def Offsets_init_def
        to_size_t_def to_int_def to_unsigned_def)
  have e: "{0..<2::int} = {0, 1}" by auto
  have h3: "layoutSeparates (Offsets_init 0 16 32 48) (mCount twoRecordBuffer)"
    by (simp add: twoRecordBuffer_simps layoutSeparates_def copiedSlots_def Offsets_get_def Offsets_init_def
        to_size_t_def to_int_def quadsApart_def e)
  have o: "getOffset twoRecordBuffer 1 Position = 16"
    by (simp add: twoRecordBuffer_simps getOffset_def Offsets_get_def Offsets_default_def)
  have r: "read_at (mData twoRecordBuffer) (getOffset twoRecordBuffer 1 Position) 4 = Some [17, 18, 19, 20]"
    by (simp add: twoRecordBuffer_def LightBuffer_init_def getOffset_def Offsets_get_def Offsets_default_def read_at_def)
  have d: "map_option mData (configureLayout twoRecordBuffer 0 16 32 36 48) =
      Some [1, 2, 3, 4, 5, 6, 7, 8, 9, 10, 11, 12,
            13, 14, 15, 16, 17, 18, 19, 20, 21, 22, 23, 24,
            13, 14, 15, 16, 17, 18, 19, 20, 21, 22, 23, 24]"
    by (simp add: configureLayout_def twoRecordBuffer_def LightBuffer_init_def Offsets_init_def
        Offsets_default_def Offsets_get_def copyRecord_def read_at_def memcpy_to_def
        resizeArray_def to_size_t_def to_int_def to_unsigned_def upt_rec Let_def)
  from configureLayout_keeps_quadwords[OF h1 h2 h3] obtain buf' where
    c: "configureLayout twoRecordBuffer 0 16 32 36 48 = Some buf'"
    and l: "mOffsets buf' = Offsets_init 0 16 32 48"
    and p: "\<forall>i\<in>{0..<mCount twoRecordBuffer}. \<forall>slot\<in>copiedSlots.
                 read_at (mData buf') (getOffset buf' i slot) 4 = read_at (mData twoRecordBuffer) (getOffset twoRecordBuffer i slot) 4
                 \<and> read_at (mData twoRecordBuffer) (getOffset twoRecordBuffer i slot) 4 \<noteq> None"
    by blast
  have o': "getOffset buf' 1 Position = 28"
    by (simp add: l getOffset_def Offsets_get_def Offsets_init_def to_size_t_def to_int_def)
  have "read_at (mData buf') (getOffset buf' 1 Position) 4 = read_at (mData twoRecordBuffer) (getOffset twoRecordBuffer 1 Position) 4"
    using p[rule_format, of 1 Position] by (simp add: twoRecordBuffer_simps copiedSlots_def)
  with r have r': "read_at (mData buf') (getOffset buf' 1 Position) 4 = Some [17, 18, 19, 20]"
    by simp
  have d': "mData buf' = [1, 2, 3, 4, 5, 6, 7, 8, 9, 10, 11, 12,
                           13, 14, 15, 16, 17, 18, 19, 20, 21, 22, 23, 24,
                           13, 14, 15, 16, 17, 18, 19, 20, 21, 22, 23, 24]"
    using d unfolding c by simp
  from c o' r' d' have "\<exists>buf'. configureLayout twoRecordBuffer 0 16 32 36 48 = Some buf'
         \<and> getOffset buf' 1 Position = 28
         \<and> read_at (mData buf') (getOffset buf' 1 Position) 4 = Some [17, 18, 19, 20]
         \<and> mData buf' = [1, 2, 3, 4, 5, 6, 7, 8, 9, 10, 11, 12,
                           13, 14, 15, 16, 17, 18, 19, 20, 21, 22, 23, 24,
                           13, 14, 15, 16, 17, 18, 19, 20, 21, 22, 23, 24]"
    by (intro exI[of _ buf'] conjI)
  with h1 h2 h3 o show ?thesis by (intro conjI)
qed

text \<open>The claim as stated, for every choice of new offsets and stride, fails: the new layout is
  used as given. \<open>initSharedLayout\<close> passes the array stride that OpenGL reports, and \<open>-1\<close>
  where OpenGL reports none. With the offsets 0, 16 and 32 of tightly packed members and the
  stride \<open>-1\<close> the stride of the new layout is \<open>(32 + 16 - 1) / 4 = 11\<close> floats, one less than
  a record takes: the diffuse quadword of record 1 is copied over the last float of the
  attenuation quadword of record 0, which reads 13 instead of 12 afterwards.\<close>

theorem configureLayout_stride_counterexample:
  "mStride (Offsets_init 0 16 32 (- 1)) = 11
   \<and> read_at (mData twoRecordBuffer) (getOffset twoRecordBuffer 0 AttenuationRadius) 4
       = Some [9, 10, 11, 12]
   \<and> map_option (\<lambda>b. read_at (mData b) (getOffset b 0 AttenuationRadius) 4)
        (configureLayout twoRecordBuffer 0 16 32 96 (- 1)) = Some (Some [9, 10, 11, 13])
   \<and> map_option (\<lambda>b. take 24 (mData b)) (configureLayout twoRecordBuffer 0 16 32 96 (- 1)) =
       Some [1, 2, 3, 4, 5, 6, 7, 8, 9, 10, 11, 13, 14, 15, 16, 17, 18, 19, 20, 21, 22, 23, 24, 24]"
  by (simp add: configureLayout_def twoRecordBuffer_def LightBuffer_init_def Offsets_init_def
      Offsets_default_def Offsets_get_def getOffset_def copyRecord_def read_at_def memcpy_to_def
      resizeArray_def to_size_t_def to_int_def to_unsigned_def upt_rec Let_def)

section \<open>Truncating the lights in view space to the capacity of the buffer\<close>

text \<open>The insertion sort meets the contract of \<open>std::sort\<close>.\<close>

lemma mset_insertBy: "mset (insertBy cmp x xs) = add_mset x (mset xs)"
  by (induction xs) simp_all

lemma set_insertBy: "set (insertBy cmp x xs) = insert x (set xs)"
  by (induction xs) auto

lemma sorted_insertBy:
  fixes key :: "'a \<Rightarrow> real"
  shows "sorted (map key xs) \<Longrightarrow> sorted (map key (insertBy (\<lambda>a b. key a < key b) x xs))"
  by (induction xs) (auto simp: set_insertBy)

lemma insertionSort_Cons: "insertionSort cmp (x # xs) = insertBy cmp x (insertionSort cmp xs)"
  by (simp add: insertionSort_def)

lemma mset_insertionSort: "mset (insertionSort cmp xs) = mset xs"
  by (induction xs) (simp_all add: insertionSort_Cons mset_insertBy, simp add: insertionSort_def)

lemma sorted_insertionSort:
  fixes key :: "'a \<Rightarrow> real"
  shows "sorted (map key (insertionSort (\<lambda>a b. key a < key b) xs))"
proof (induction xs)
  case Nil
  show ?case by (simp add: insertionSort_def)
next
  case (Cons x xs)
  then show ?case by (simp add: insertionSort_Cons sorted_insertBy)
qed

lemma stdSortContract_translation: "stdSortContract translationExternals"
  by (simp add: stdSortContract_def translationExternals_def mset_insertionSort sorted_insertionSort)

text \<open>The first n elements of an ascending rearrangement are n smallest elements.\<close>

lemma take_sorted_smallest:
  fixes key :: "'a \<Rightarrow> real"
  assumes "mset ys = mset xs" and "sorted (map key ys)"
  shows "mset xs = mset (take n ys) + mset (drop n ys)
         \<and> (\<forall>x\<in>set (take n ys). \<forall>y\<in>set (drop n ys). key x \<le> key y)"
proof -
  have "mset ys = mset (take n ys) + mset (drop n ys)"
    by (metis append_take_drop_id mset_append)
  moreover have "sorted (map key (take n ys) @ map key (drop n ys))"
    using assms(2) by (simp flip: map_append)
  then have "\<forall>x\<in>set (take n ys). \<forall>y\<in>set (drop n ys). key x \<le> key y"
    by (auto simp: sorted_append)
  ultimately show ?thesis using assms(1) by simp
qed

lemma getMaxLightsInScene_eq: "getMaxLightsInScene = 341"
  by (simp add: getMaxLightsInScene_def queryBlockSize_def to_size_t_def to_int_def)

text \<open>The insertion sort leaves a list alone that the comparison has in order, and puts an
  element that comes before none of a list behind it.\<close>

lemma insertionSort_sorted: "sorted_wrt cmp xs \<Longrightarrow> insertionSort cmp xs = xs"
proof (induction xs)
  case Nil
  show ?case by (simp add: insertionSort_def)
next
  case (Cons x xs)
  then have "insertionSort cmp (x # xs) = insertBy cmp x xs"
    by (simp add: insertionSort_Cons)
  also have "\<dots> = x # xs" using Cons.prems by (cases xs) simp_all
  finally show ?case .
qed

lemma insertBy_append: "\<forall>y\<in>set ys. \<not> cmp x y \<Longrightarrow> insertBy cmp x (ys @ zs) = ys @ insertBy cmp x zs"
  by (induction ys) simp_all

lemma insertBy_first: "xs \<noteq> [] \<Longrightarrow> cmp x (hd xs) \<Longrightarrow> insertBy cmp x xs = x # xs"
  by (cases xs) simp_all

text \<open>The loop that collects the lights keeps the manager's tier, and without a fade it
  turns every registered light into an entry and leaves the light sources alone.\<close>

lemma lookupOrCollect_method:
  "getLightingMethod (snd (lookupOrCollect ext mgr camera viewMatrix frameNum)) = getLightingMethod mgr"
  by (simp add: lookupOrCollect_def getLightingMethod_def split: option.splits prod.splits)

lemma collectLights_unfaded:
  assumes "isReflection \<or> mPointLightFadeEnd mgr = 0"
  shows "collectLights ext mgr isReflection viewMatrix frameNum ts (heap, out) =
     (heap, out @ map (\<lambda>t. \<lparr>mLightSource = tLightSource t,
                              mViewBound = transformBoundingSphere ext (matMult ext (mWorldMatrix t) viewMatrix)
                                 \<lparr>center = \<lparr>v3x = 0, v3y = 0, v3z = 0\<rparr>,
                                  radius = mRadius (heap (tLightSource t)) * mPointLightRadiusMultiplier mgr\<rparr>\<rparr>) ts)"
  using assms by (induction ts arbitrary: out) (auto simp: Let_def)

text \<open>The key of the comparison is the proximity that the specification names.\<close>

lemma sorterKey_proximity: "sorterKey l = proximity l"
  by (simp add: sorterKey_def proximity_def length2_def radius2_def power2_eq_square)

text \<open>Claim C2. In the tier \<open>SingleUBO\<close>, when the list of the camera (found in the cache or
  just collected) has more than \<open>getMaxLightsInScene() - 1\<close> entries, \<open>getLightsInViewSpace\<close>
  returns a list of exactly \<open>getMaxLightsInScene() - 1 = 340\<close> entries; its element at index 0
  is the element that was at index 0; its tail is ascending in distance squared minus radius
  squared and consists of smallest elements of the old tail: the old tail is the new tail
  together with the dropped elements, and no dropped element has a smaller distance squared
  minus radius squared than a retained one. The list returned is the one kept for the camera.
  This holds for every \<open>std::sort\<close> that meets its contract.\<close>

theorem getLightsInViewSpace_truncates:
  assumes contract: "stdSortContract ext"
    and collected: "lookupOrCollect ext mgr camera viewMatrix frameNum = (l, m1)"
    and tier: "getLightingMethod mgr = SingleUBO"
    and over: "int (length l) > getMaxLightsInScene - 1"
  shows "\<exists>l' m'. getLightsInViewSpace ext mgr camera viewMatrix frameNum = (l', m')
           \<and> int (length l') = getMaxLightsInScene - 1
           \<and> length l' = 340
           \<and> l' ! 0 = l ! 0
           \<and> sorted (map proximity (drop 1 l'))
           \<and> (\<exists>dropped. mset (drop 1 l) = mset (drop 1 l') + mset dropped
                 \<and> (\<forall>x\<in>set (drop 1 l'). \<forall>y\<in>set dropped. proximity x \<le> proximity y))
           \<and> fmlookup (mLightsInViewSpace m') (camAddr camera) = Some l'"
proof -
  let ?s = "stdSort ext sorter (drop 1 l)"
  let ?l' = "take 340 (take 1 l @ ?s)"
  have key: "sorterKey = proximity" by (rule ext) (rule sorterKey_proximity)
  have s: "mset ?s = mset (drop 1 l)" "sorted (map sorterKey ?s)"
    using contract unfolding stdSortContract_def sorter_def by blast+
  have len_s: "length ?s = length l - 1"
    using s(1) by (metis length_drop size_mset)
  have len: "length l > 340" using over by (simp add: getMaxLightsInScene_eq)
  then obtain x xs where l: "l = x # xs" by (cases l) auto
  have m1: "getLightingMethod m1 = SingleUBO"
    using lookupOrCollect_method[of ext mgr camera viewMatrix frameNum] tier by (simp add: collected)
  have t: "truncateToCapacity ext m1 l = ?l'"
    using m1 over by (simp add: truncateToCapacity_def getMaxLightsInScene_eq)
  have l': "?l' = x # take 339 ?s" using l by simp
  let ?m' = "m1\<lparr>mLightsInViewSpace := fmupd (camAddr camera) ?l' (mLightsInViewSpace m1)\<rparr>"
  have r: "getLightsInViewSpace ext mgr camera viewMatrix frameNum = (?l', ?m')"
    using collected t by (simp add: getLightsInViewSpace_def Let_def)
  have d: "drop 1 ?l' = take 339 ?s" unfolding l' by simp
  have c1: "int (length ?l') = getMaxLightsInScene - 1"
    unfolding l' using len len_s by (simp add: getMaxLightsInScene_eq)
  have c2: "length ?l' = 340" unfolding l' using len len_s by simp
  have c3: "?l' ! 0 = l ! 0" unfolding l' using l by simp
  have c4: "sorted (map proximity (drop 1 ?l'))"
    unfolding d using s(2) sorted_wrt_take[of "(\<le>)" "map sorterKey ?s" 339]
    by (simp add: take_map key)
  have "mset (drop 1 l) = mset (drop 1 ?l') + mset (drop 339 ?s)
       \<and> (\<forall>x\<in>set (drop 1 ?l'). \<forall>y\<in>set (drop 339 ?s). sorterKey x \<le> sorterKey y)"
    unfolding d using take_sorted_smallest[OF s, of 339] by simp
  then have c5: "\<exists>dropped. mset (drop 1 l) = mset (drop 1 ?l') + mset dropped
                 \<and> (\<forall>x\<in>set (drop 1 ?l'). \<forall>y\<in>set dropped. proximity x \<le> proximity y)"
    unfolding key by (intro exI[of _ "drop 339 ?s"])
  have c6: "fmlookup (mLightsInViewSpace ?m') (camAddr camera) = Some ?l'" by simp
  show ?thesis
    by (rule exI[of _ ?l'], rule exI[of _ ?m'], intro conjI) (rule r c1 c2 c3 c4 c5 c6)+
qed

text \<open>The lights of the crowded manager, once sorted.\<close>

lemma crowd_collected:
  "lookupOrCollect translationExternals crowdedManager mainCamera \<lparr>v3x = 0, v3y = 0, v3z = 0\<rparr> 0
     = (crowd, crowdedManager)"
proof -
  let ?vm = "\<lparr>v3x = 0, v3y = 0, v3z = 0\<rparr> :: Vec3f"
  let ?mk = "\<lambda>t. \<lparr>mLightSource = tLightSource t,
                   mViewBound = transformBoundingSphere translationExternals
                      (matMult translationExternals (mWorldMatrix t) ?vm)
                      \<lparr>center = \<lparr>v3x = 0, v3y = 0, v3z = 0\<rparr>,
                       radius = mRadius (heapLights crowdedManager (tLightSource t))
                                  * mPointLightRadiusMultiplier crowdedManager\<rparr>\<rparr>"
  have mk: "\<And>a d. ?mk (registeredAt a d) = lightAt a d (if a = 1 then 1000 else 1)"
    by (simp add: registeredAt_def lightAt_def crowdedManager_def freshManager_def
        translationExternals_def vec3_add_def)
  have rest: "map (\<lambda>i. ?mk (registeredAt i (real i))) [2..<340] = map (\<lambda>i. lightAt i (real i) 1) [2..<340]"
    by (rule map_cong[OF refl]) (simp del: upt_rec_numeral add: mk)
  have ml: "mLights crowdedManager =
      [registeredAt 0 2000, registeredAt 1 1000, registeredAt 400 400, registeredAt 350 350]
      @ map (\<lambda>i. registeredAt i (real i)) [2 ..< 340]"
    by (simp del: upt_rec_numeral add: crowdedManager_def)
  have "map ?mk (mLights crowdedManager) = crowd"
    unfolding ml crowd_def by (simp del: upt_rec_numeral add: mk rest comp_def)
  moreover have "mPointLightFadeEnd crowdedManager = 0"
    "fmlookup (mLightsInViewSpace crowdedManager) (camAddr mainCamera) = None"
    by (simp_all add: crowdedManager_def freshManager_def)
  ultimately show ?thesis
    by (simp add: lookupOrCollect_def collectLights_unfaded)
qed

lemma crowd_sorted:
  "insertionSort sorter ([lightAt 1 1000 1000, lightAt 400 400 1, lightAt 350 350 1]
                          @ map (\<lambda>i. lightAt i (real i) 1) [2 ..< 340])
   = lightAt 1 1000 1000 # map (\<lambda>i. lightAt i (real i) 1) [2 ..< 340]
       @ [lightAt 350 350 1, lightAt 400 400 1]"
proof -
  let ?nears = "map (\<lambda>i. lightAt i (real i) 1) [2 ..< 340]"
  have k: "\<And>a d r. sorterKey (lightAt a d r) = d * d - r * r"
    by (simp add: sorterKey_def lightAt_def length2_def radius2_def)
  have sq: "\<And>i j::nat. i < j \<Longrightarrow> real i * real i < real j * real j"
    by (simp add: mult_strict_mono)
  have "sorted_wrt (\<lambda>i j. sorter (lightAt i (real i) 1) (lightAt j (real j) 1)) [2 ..< 340]"
    by (rule sorted_wrt_mono_rel[of _ "(<)"]) (simp_all del: upt_rec_numeral add: sorter_def k sq)
  then have a: "insertionSort sorter ?nears = ?nears"
    by (intro insertionSort_sorted) (simp del: upt_rec_numeral add: sorted_wrt_map)
  have le: "\<And>i::nat. i < 340 \<Longrightarrow> real i * real i \<le> 339 * 339"
    by (intro mult_mono) simp_all
  have b: "\<forall>y\<in>set ?nears. \<not> sorter (lightAt 350 350 1) y"
  proof
    fix y assume "y \<in> set ?nears"
    then obtain i where "i < 340" "y = lightAt i (real i) 1"
      by (auto simp del: upt_rec_numeral)
    with le[of i] show "\<not> sorter (lightAt 350 350 1) y" by (simp add: sorter_def k)
  qed
  have c: "\<forall>y\<in>set ?nears. \<not> sorter (lightAt 400 400 1) y"
  proof
    fix y assume "y \<in> set ?nears"
    then obtain i where "i < 340" "y = lightAt i (real i) 1"
      by (auto simp del: upt_rec_numeral)
    with le[of i] show "\<not> sorter (lightAt 400 400 1) y" by (simp add: sorter_def k)
  qed
  have n: "?nears @ [lightAt 350 350 1, lightAt 400 400 1] \<noteq> []"
    "hd (?nears @ [lightAt 350 350 1, lightAt 400 400 1]) = lightAt 2 2 1"
    by (simp_all del: upt_rec_numeral add: hd_append hd_map)
  have "insertionSort sorter ([lightAt 1 1000 1000, lightAt 400 400 1, lightAt 350 350 1] @ ?nears)
      = insertBy sorter (lightAt 1 1000 1000)
          (insertBy sorter (lightAt 400 400 1) (insertBy sorter (lightAt 350 350 1) ?nears))"
    by (simp del: upt_rec_numeral add: insertionSort_Cons a)
  also have "insertBy sorter (lightAt 350 350 1) ?nears = ?nears @ [lightAt 350 350 1]"
    using insertBy_append[where cmp = sorter and x = "lightAt 350 350 1" and ys = ?nears and zs = "[]", OF b]
    by (simp del: upt_rec_numeral)
  also have "insertBy sorter (lightAt 400 400 1) (?nears @ [lightAt 350 350 1])
      = ?nears @ [lightAt 350 350 1, lightAt 400 400 1]"
    unfolding insertBy_append[where cmp = sorter and x = "lightAt 400 400 1" and ys = ?nears, OF c]
    by (simp del: upt_rec_numeral add: sorter_def k)
  also have "insertBy sorter (lightAt 1 1000 1000) (?nears @ [lightAt 350 350 1, lightAt 400 400 1])
      = lightAt 1 1000 1000 # ?nears @ [lightAt 350 350 1, lightAt 400 400 1]"
    by (rule insertBy_first[OF n(1)]) (simp add: n(2) sorter_def k)
  finally show ?thesis by (simp del: upt_rec_numeral)
qed

theorem getLightsInViewSpace_truncates_witness:
  "stdSortContract translationExternals
   \<and> lookupOrCollect translationExternals crowdedManager mainCamera \<lparr>v3x = 0, v3y = 0, v3z = 0\<rparr> 0
        = (crowd, crowdedManager)
   \<and> getLightingMethod crowdedManager = SingleUBO
   \<and> int (length crowd) > getMaxLightsInScene - 1
   \<and> length crowd = 342
   \<and> (\<exists>m'. getLightsInViewSpace translationExternals crowdedManager mainCamera
                \<lparr>v3x = 0, v3y = 0, v3z = 0\<rparr> 0
              = (lightAt 0 2000 1 # lightAt 1 1000 1000 # map (\<lambda>i. lightAt i (real i) 1) [2 ..< 340], m'))"
proof -
  let ?vm = "\<lparr>v3x = 0, v3y = 0, v3z = 0\<rparr> :: Vec3f"
  let ?nears = "map (\<lambda>i. lightAt i (real i) 1) [2 ..< 340]"
  have h3: "getLightingMethod crowdedManager = SingleUBO"
    by (simp add: getLightingMethod_def crowdedManager_def freshManager_def)
  have n: "length crowd = 342" by (simp del: upt_rec_numeral add: crowd_def)
  have h4: "int (length crowd) > getMaxLightsInScene - 1"
    by (simp add: n getMaxLightsInScene_eq)
  have t: "truncateToCapacity translationExternals crowdedManager crowd
      = lightAt 0 2000 1 # lightAt 1 1000 1000 # ?nears"
  proof -
    have "stdSort translationExternals sorter (drop 1 crowd)
        = lightAt 1 1000 1000 # ?nears @ [lightAt 350 350 1, lightAt 400 400 1]"
      using crowd_sorted by (simp del: upt_rec_numeral add: crowd_def translationExternals_def)
    moreover have "take 1 crowd = [lightAt 0 2000 1]" by (simp del: upt_rec_numeral add: crowd_def)
    ultimately show ?thesis
      using h3 h4 by (simp del: upt_rec_numeral add: truncateToCapacity_def getMaxLightsInScene_eq)
  qed
  from getLightsInViewSpace_truncates[OF stdSortContract_translation crowd_collected h3 h4]
  obtain l' m' where c: "getLightsInViewSpace translationExternals crowdedManager mainCamera ?vm 0 = (l', m')"
    by blast
  have "l' = truncateToCapacity translationExternals crowdedManager crowd"
    using c by (simp add: getLightsInViewSpace_def crowd_collected Let_def)
  with c t have "\<exists>m'. getLightsInViewSpace translationExternals crowdedManager mainCamera ?vm 0
              = (lightAt 0 2000 1 # lightAt 1 1000 1000 # ?nears, m')"
    by simp
  with stdSortContract_translation crowd_collected h3 h4 n show ?thesis by (intro conjI)
qed

section \<open>Fading lights with their distance\<close>

lemma vec4_scale_one: "vec4_scale v 1 = v"
  by (simp add: vec4_scale_def)

lemma upd2_at2: "upd2 p i (at2 p i) = p"
  by (simp add: upd2_def at2_def)

lemma colour_scale_one: "colour_scale c (Finite 1) = c"
  by (cases c) (simp_all add: vec4_scale_one)

lemma fadeDiffuse_one: "fadeDiffuse ls frameNum (Finite 1) = ls"
  by (simp add: fadeDiffuse_def Let_def colour_scale_one setLight_def getLight_def upd2_at2)

lemma mRadius_fadeDiffuse: "mRadius (fadeDiffuse ls frameNum k) = mRadius ls"
  by (simp add: fadeDiffuse_def Let_def setLight_def)

lemma fadeFactor_finite:
  assumes "mPointLightFadeEnd mgr - mPointLightFadeStart mgr \<noteq> 0"
  shows "fadeFactor mgr d =
     Finite (1 - clamp ((d - mPointLightFadeStart mgr) / (mPointLightFadeEnd mgr - mPointLightFadeStart mgr)) 0 1)"
  using assms by (simp add: fadeFactor_def Let_def float_div_def clamp_q_def one_minus_def)

lemma fade_50_100:
  "1 - clamp ((d - 50) / 50) 0 1 = (0::real) \<longleftrightarrow> 100 \<le> d"
  by (auto simp: clamp_def field_simps)

lemma collectLights_step:
  assumes "mPointLightFadeEnd mgr \<noteq> 0"
    and "fadeFactor mgr (distanceOf ext mgr viewMatrix t) = Finite k"
    and "mRadius (heap (tLightSource t)) = mRadius (heapLights mgr (tLightSource t))"
  shows "collectLights ext mgr False viewMatrix frameNum (t # ts) (heap, out) =
     (if k = 0 then collectLights ext mgr False viewMatrix frameNum ts (heap, out)
      else collectLights ext mgr False viewMatrix frameNum ts
             (heap(tLightSource t := fadeDiffuse (heap (tLightSource t)) frameNum (Finite k)),
              out @ [\<lparr>mLightSource = tLightSource t, mViewBound = viewBoundOf ext mgr viewMatrix t\<rparr>]))"
  using assms by (simp add: Let_def viewBoundOf_def distanceOf_def)

lemma getLight_setLight: "getLight (setLight ls frameNum l) frameNum = l"
  by (simp add: getLight_def setLight_def at2_def upd2_def)

lemma setLight_setLight: "setLight (setLight ls frameNum l) frameNum l' = setLight ls frameNum l'"
  by (simp add: setLight_def upd2_def)

lemma colour_scale_twice:
  "colour_scale (colour_scale c (Finite k1)) (Finite k2) = colour_scale c (Finite (k1 * k2))"
  by (cases c) (simp_all add: vec4_scale_def mult.assoc)

lemma fadeDiffuse_twice:
  "fadeDiffuse (fadeDiffuse ls frameNum (Finite k1)) frameNum (Finite k2)
     = fadeDiffuse ls frameNum (Finite (k1 * k2))"
  by (simp add: fadeDiffuse_def Let_def getLight_setLight setLight_setLight colour_scale_twice)

text \<open>What the loop returns while the fade is active with a nonzero divisor: the lights whose
  fade is not zero, in order, and every light source faded once for each of its entries that
  is kept.\<close>

lemma collectLights_fading:
  assumes e: "mPointLightFadeEnd mgr \<noteq> 0"
    and fin: "\<And>d. fadeFactor mgr d = Finite (fd d)"
  shows "(\<forall>a. mRadius (heap a) = mRadius (heapLights mgr a)) \<Longrightarrow>
     collectLights ext mgr False viewMatrix frameNum ts (heap, out) =
        (\<lambda>a. fadeDiffuse (heap a) frameNum
                (Finite (prod_list (map (\<lambda>t. fd (distanceOf ext mgr viewMatrix t))
                   (filter (\<lambda>t. tLightSource t = a \<and> fd (distanceOf ext mgr viewMatrix t) \<noteq> 0) ts)))),
              out @ map (\<lambda>t. \<lparr>mLightSource = tLightSource t, mViewBound = viewBoundOf ext mgr viewMatrix t\<rparr>)
                        (filter (\<lambda>t. fd (distanceOf ext mgr viewMatrix t) \<noteq> 0) ts))"
proof (induction ts arbitrary: heap out)
  case Nil
  then show ?case by (simp add: fadeDiffuse_one)
next
  case (Cons u ts)
  let ?k = "fd (distanceOf ext mgr viewMatrix u)"
  let ?l = "\<lparr>mLightSource = tLightSource u, mViewBound = viewBoundOf ext mgr viewMatrix u\<rparr>"
  let ?heap1 = "if ?k = 0 then heap else heap(tLightSource u := fadeDiffuse (heap (tLightSource u)) frameNum (Finite ?k))"
  let ?out1 = "if ?k = 0 then out else out @ [?l]"
  have step: "collectLights ext mgr False viewMatrix frameNum (u # ts) (heap, out) =
      collectLights ext mgr False viewMatrix frameNum ts (?heap1, ?out1)"
    using collectLights_step[OF e fin, where t = u and heap = heap and ext = ext
        and viewMatrix = viewMatrix and frameNum = frameNum and ts = ts and out = out] Cons.prems
    by simp
  have rad1: "\<forall>a. mRadius (?heap1 a) = mRadius (heapLights mgr a)"
    using Cons.prems by (simp add: mRadius_fadeDiffuse)
  have heap_eq: "(\<lambda>a. fadeDiffuse (?heap1 a) frameNum
                     (Finite (prod_list (map (\<lambda>t. fd (distanceOf ext mgr viewMatrix t))
                        (filter (\<lambda>t. tLightSource t = a \<and> fd (distanceOf ext mgr viewMatrix t) \<noteq> 0) ts)))))
      = (\<lambda>a. fadeDiffuse (heap a) frameNum
                     (Finite (prod_list (map (\<lambda>t. fd (distanceOf ext mgr viewMatrix t))
                        (filter (\<lambda>t. tLightSource t = a \<and> fd (distanceOf ext mgr viewMatrix t) \<noteq> 0) (u # ts))))))"
    by (rule ext) (simp add: fadeDiffuse_twice)
  show ?case
    unfolding step Cons.IH[OF rad1, of ?out1] heap_eq by simp
qed

lemma truncateToCapacity_heap:
  "truncateToCapacity ext (mgr\<lparr>heapLights := h\<rparr>) l = truncateToCapacity ext mgr l"
  by (simp add: truncateToCapacity_def getLightingMethod_def)

text \<open>Claim C3. With a fade end of 100 and a fade start of 50, on the call that collects the
  list of a camera other than the reflection camera, \<open>getLightsInViewSpace\<close> uses the fade
  \<open>1 - clamp((distance - 50) / 50, 0, 1)\<close>, which is 1 at distance 50, one half at distance 75
  and 0 from distance 100 on. The list collected holds exactly the registered lights nearer than
  100, in order, and the diffuse colour of every light source, in the copy of the frame, is
  scaled by the fade of each of its entries that is kept. So a light source registered once
  keeps its colour at distance 50, has it scaled by one half at distance 75, and at distance
  100 or more keeps its colour and has no entry in the list.\<close>

theorem getLightsInViewSpace_fade:
  assumes fadeEnd: "mPointLightFadeEnd mgr = 100"
    and fadeStart: "mPointLightFadeStart mgr = 50"
    and camera: "\<not> isReflectionCamera camera"
    and miss: "fmlookup (mLightsInViewSpace mgr) (camAddr camera) = None"
  shows "\<exists>full m'.
      getLightsInViewSpace ext mgr camera viewMatrix frameNum = (truncateToCapacity ext mgr full, m')
      \<and> full = map (\<lambda>t. \<lparr>mLightSource = tLightSource t, mViewBound = viewBoundOf ext mgr viewMatrix t\<rparr>)
                   (filter (\<lambda>t. distanceOf ext mgr viewMatrix t < 100) (mLights mgr))
      \<and> (\<forall>d. fadeFactor mgr d = Finite (1 - clamp ((d - 50) / 50) 0 1))
      \<and> fadeFactor mgr 50 = Finite 1 \<and> fadeFactor mgr 75 = Finite (1 / 2)
      \<and> (\<forall>d\<ge>100. fadeFactor mgr d = Finite 0)
      \<and> (\<forall>a. heapLights m' a =
             fadeDiffuse (heapLights mgr a) frameNum
               (Finite (prod_list (map (\<lambda>t. 1 - clamp ((distanceOf ext mgr viewMatrix t - 50) / 50) 0 1)
                  (filter (\<lambda>t. tLightSource t = a \<and> distanceOf ext mgr viewMatrix t < 100) (mLights mgr))))))
      \<and> (\<forall>a t. filter (\<lambda>u. tLightSource u = a) (mLights mgr) = [t] \<longrightarrow>
            (distanceOf ext mgr viewMatrix t = 50 \<longrightarrow> heapLights m' a = heapLights mgr a)
          \<and> (distanceOf ext mgr viewMatrix t = 75 \<longrightarrow>
                heapLights m' a = fadeDiffuse (heapLights mgr a) frameNum (Finite (1 / 2)))
          \<and> (100 \<le> distanceOf ext mgr viewMatrix t \<longrightarrow>
                heapLights m' a = heapLights mgr a \<and> a \<notin> mLightSource ` set full))"
proof -
  let ?fd = "\<lambda>d::real. 1 - clamp ((d - 50) / 50) 0 1"
  let ?dist = "distanceOf ext mgr viewMatrix"
  let ?mk = "\<lambda>t. \<lparr>mLightSource = tLightSource t, mViewBound = viewBoundOf ext mgr viewMatrix t\<rparr>"
  let ?heap' = "\<lambda>a. fadeDiffuse (heapLights mgr a) frameNum
               (Finite (prod_list (map (\<lambda>t. ?fd (?dist t))
                  (filter (\<lambda>t. tLightSource t = a \<and> ?dist t < 100) (mLights mgr)))))"
  have e: "mPointLightFadeEnd mgr \<noteq> 0" using fadeEnd by simp
  have fin: "\<And>d. fadeFactor mgr d = Finite (?fd d)"
    using fadeFactor_finite[of mgr] fadeEnd fadeStart by simp
  have keep: "\<And>t. (?fd (?dist t) \<noteq> 0) = (?dist t < 100)"
    using fade_50_100 by (simp add: not_le)
  let ?full = "map ?mk (filter (\<lambda>t. ?dist t < 100) (mLights mgr))"
  have r: "collectLights ext mgr False viewMatrix frameNum (mLights mgr) (heapLights mgr, []) =
        (?heap', ?full)"
    using collectLights_fading[OF e fin, of "heapLights mgr" ext viewMatrix frameNum "mLights mgr" "[]"]
    by (simp only: keep) simp
  let ?m1 = "mgr\<lparr>heapLights := ?heap'\<rparr>"
  let ?m' = "?m1\<lparr>mLightsInViewSpace :=
                 fmupd (camAddr camera) (truncateToCapacity ext mgr ?full) (mLightsInViewSpace ?m1)\<rparr>"
  have call: "getLightsInViewSpace ext mgr camera viewMatrix frameNum =
      (truncateToCapacity ext mgr ?full, ?m')"
    using r camera miss
    by (simp add: getLightsInViewSpace_def lookupOrCollect_def Let_def truncateToCapacity_heap)
  have h: "heapLights ?m' = ?heap'" by simp
  have lights: "\<forall>a t. filter (\<lambda>u. tLightSource u = a) (mLights mgr) = [t] \<longrightarrow>
            (?dist t = 50 \<longrightarrow> heapLights ?m' a = heapLights mgr a)
          \<and> (?dist t = 75 \<longrightarrow> heapLights ?m' a = fadeDiffuse (heapLights mgr a) frameNum (Finite (1 / 2)))
          \<and> (100 \<le> ?dist t \<longrightarrow> heapLights ?m' a = heapLights mgr a \<and> a \<notin> mLightSource ` set ?full)"
  proof (intro allI impI conjI)
    fix a t assume f: "filter (\<lambda>u. tLightSource u = a) (mLights mgr) = [t]"
    have "filter (\<lambda>t. tLightSource t = a \<and> ?dist t < 100) (mLights mgr)
          = filter (\<lambda>t. ?dist t < 100) (filter (\<lambda>u. tLightSource u = a) (mLights mgr))"
      by (simp add: conj_commute)
    then have fa: "filter (\<lambda>t. tLightSource t = a \<and> ?dist t < 100) (mLights mgr)
          = (if ?dist t < 100 then [t] else [])"
      using f by simp
    { assume "?dist t = 50"
      then show "heapLights ?m' a = heapLights mgr a"
        unfolding h fa by (simp add: fadeDiffuse_one clamp_def) }
    { assume "?dist t = 75"
      then show "heapLights ?m' a = fadeDiffuse (heapLights mgr a) frameNum (Finite (1 / 2))"
        unfolding h fa by (simp add: clamp_def) }
    { assume far: "100 \<le> ?dist t"
      then show "heapLights ?m' a = heapLights mgr a"
        unfolding h fa by (simp add: fadeDiffuse_one)
      show "a \<notin> mLightSource ` set ?full"
      proof
        assume "a \<in> mLightSource ` set ?full"
        then obtain u where u: "u \<in> set (mLights mgr)" "?dist u < 100" "tLightSource u = a"
          by auto
        then have "u \<in> set (filter (\<lambda>u. tLightSource u = a) (mLights mgr))" by simp
        with f have "u = t" by simp
        with u far show False by simp
      qed }
  qed
  have far: "\<forall>d\<ge>100. fadeFactor mgr d = Finite 0"
    using fin fade_50_100 by simp
  have near: "fadeFactor mgr 50 = Finite 1" "fadeFactor mgr 75 = Finite (1 / 2)"
    using fin by (simp_all add: clamp_def)
  have heaps: "\<forall>a. heapLights ?m' a = ?heap' a" by simp
  have allfin: "\<forall>d. fadeFactor mgr d = Finite (?fd d)" using fin by simp
  show ?thesis
    by (rule exI[of _ ?full], rule exI[of _ ?m'], intro conjI)
       (rule call refl allfin near far heaps lights)+
qed

lemma sqrt_5625: "sqrt 5625 = 75"
  using real_sqrt_abs[of 75] by simp

theorem getLightsInViewSpace_fade_witness:
  "mPointLightFadeEnd oneLightManager = 100
   \<and> mPointLightFadeStart oneLightManager = 50
   \<and> \<not> isReflectionCamera mainCamera
   \<and> fmlookup (mLightsInViewSpace oneLightManager) (camAddr mainCamera) = None
   \<and> (\<exists>m'. getLightsInViewSpace translationExternals oneLightManager mainCamera
                \<lparr>v3x = 0, v3y = 0, v3z = 0\<rparr> 0
              = ([\<lparr>mLightSource = 3,
                   mViewBound = \<lparr>center = \<lparr>v3x = 75, v3y = 0, v3z = 0\<rparr>, radius = 1\<rparr>\<rparr>], m')
          \<and> diffuse (getLight (heapLights m' 3) 0)
              = Rgba \<lparr>v4x = 1 / 2, v4y = 1 / 2, v4z = 1 / 2, v4w = 1 / 2\<rparr>)"
proof -
  let ?vm = "\<lparr>v3x = 0, v3y = 0, v3z = 0\<rparr> :: Vec3f"
  let ?t = "\<lparr>tLightSource = 3, mWorldMatrix = \<lparr>v3x = 75, v3y = 0, v3z = 0\<rparr>\<rparr> :: Vec3f LightSourceTransform"
  have h1: "mPointLightFadeEnd oneLightManager = 100"
    and h2: "mPointLightFadeStart oneLightManager = 50"
    and h4: "fmlookup (mLightsInViewSpace oneLightManager) (camAddr mainCamera) = None"
    by (simp_all add: oneLightManager_def freshManager_def)
  have h3: "\<not> isReflectionCamera mainCamera"
    by (simp add: isReflectionCamera_def mainCamera_def)
  have vb: "viewBoundOf translationExternals oneLightManager ?vm ?t =
      \<lparr>center = \<lparr>v3x = 75, v3y = 0, v3z = 0\<rparr>, radius = 1\<rparr>"
    by (simp add: viewBoundOf_def translationExternals_def oneLightManager_def freshManager_def vec3_add_def)
  have dist: "distanceOf translationExternals oneLightManager ?vm ?t = 75"
    by (simp add: distanceOf_def vb length_v3_def length2_def sqrt_5625)
  have ls: "mLights oneLightManager = [?t]"
    by (simp add: oneLightManager_def)
  have tr: "truncateToCapacity translationExternals oneLightManager
              [\<lparr>mLightSource = 3, mViewBound = \<lparr>center = \<lparr>v3x = 75, v3y = 0, v3z = 0\<rparr>, radius = 1\<rparr>\<rparr>]
            = [\<lparr>mLightSource = 3, mViewBound = \<lparr>center = \<lparr>v3x = 75, v3y = 0, v3z = 0\<rparr>, radius = 1\<rparr>\<rparr>]"
    by (simp add: truncateToCapacity_def getMaxLightsInScene_eq)
  have d0: "diffuse (getLight (fadeDiffuse (heapLights oneLightManager 3) 0 (Finite (1 / 2))) 0)
      = Rgba \<lparr>v4x = 1 / 2, v4y = 1 / 2, v4z = 1 / 2, v4w = 1 / 2\<rparr>"
    by (simp add: fadeDiffuse_def getLight_def setLight_def at2_def upd2_def Let_def vec4_scale_def
        oneLightManager_def freshManager_def whiteLight_def)
  from getLightsInViewSpace_fade[OF h1 h2 h3 h4, of translationExternals ?vm 0]
  obtain full m' where
    c: "getLightsInViewSpace translationExternals oneLightManager mainCamera ?vm 0
          = (truncateToCapacity translationExternals oneLightManager full, m')"
    and f: "full = map (\<lambda>t. \<lparr>mLightSource = tLightSource t,
                            mViewBound = viewBoundOf translationExternals oneLightManager ?vm t\<rparr>)
                   (filter (\<lambda>t. distanceOf translationExternals oneLightManager ?vm t < 100)
                     (mLights oneLightManager))"
    and l: "\<forall>a t. filter (\<lambda>u. tLightSource u = a) (mLights oneLightManager) = [t] \<longrightarrow>
            (distanceOf translationExternals oneLightManager ?vm t = 50 \<longrightarrow>
                heapLights m' a = heapLights oneLightManager a)
          \<and> (distanceOf translationExternals oneLightManager ?vm t = 75 \<longrightarrow>
                heapLights m' a = fadeDiffuse (heapLights oneLightManager a) 0 (Finite (1 / 2)))
          \<and> (100 \<le> distanceOf translationExternals oneLightManager ?vm t \<longrightarrow>
                heapLights m' a = heapLights oneLightManager a \<and> a \<notin> mLightSource ` set full)"
    by (elim exE conjE) (rule that, assumption+)
  have "full = [\<lparr>mLightSource = 3, mViewBound = \<lparr>center = \<lparr>v3x = 75, v3y = 0, v3z = 0\<rparr>, radius = 1\<rparr>\<rparr>]"
    unfolding f ls using dist vb by simp
  moreover have "heapLights m' 3 = fadeDiffuse (heapLights oneLightManager 3) 0 (Finite (1 / 2))"
    using l[rule_format, of 3 ?t] dist by (simp add: ls)
  ultimately have "getLightsInViewSpace translationExternals oneLightManager mainCamera ?vm 0
              = ([\<lparr>mLightSource = 3,
                   mViewBound = \<lparr>center = \<lparr>v3x = 75, v3y = 0, v3z = 0\<rparr>, radius = 1\<rparr>\<rparr>], m')
          \<and> diffuse (getLight (heapLights m' 3) 0)
              = Rgba \<lparr>v4x = 1 / 2, v4y = 1 / 2, v4z = 1 / 2, v4w = 1 / 2\<rparr>"
    using c tr d0 by simp
  then show ?thesis using h1 h2 h3 h4 by blast
qed

section \<open>The sign of a diffuse colour\<close>

text \<open>Claim C4. \<open>setDiffuse\<close> is to negate a colour with a negative component before packing
  it and to write a sign marker other than 1. The code tests the first component only. For
  the colour \<open>(0, -1, -1, -1)\<close>, a negative light without red, written to record 0 of a fresh
  buffer, the colour is packed as it is and the marker written is 1.\<close>

theorem setDiffuse_tests_red_only:
  "map_option (\<lambda>b. (read_at (mData b) (getOffset b 0 Diffuse) 1, read_at (mData b) (getOffset b 0 DiffuseSign) 1))
     (setDiffuse ext (LightBuffer_init LittleEndian 1) 0 (Rgba \<lparr>v4x = 0, v4y = - 1, v4z = - 1, v4w = - 1\<rparr>))
   = Some (Some [asRGBA_osg ext (Rgba \<lparr>v4x = 0, v4y = - 1, v4z = - 1, v4w = - 1\<rparr>)], Some [1])"
  by (simp add: setDiffuse_def LightBuffer_init_def getOffset_def Offsets_get_def Offsets_default_def
      memcpy_to_def read_at_def asRGBA_def Let_def)

section \<open>Requesting a state set\<close>

lemma heapLights_setLightBuffer [simp]: "heapLights (setLightBuffer m f b) = heapLights m"
  and cache_setLightBuffer [simp]: "mStateSetCache (setLightBuffer m f b) = mStateSetCache m"
  and method_setLightBuffer [simp]: "mLightingMethod (setLightBuffer m f b) = mLightingMethod m"
  by (simp_all add: setLightBuffer_def)

lemma heapLights_setLightIndexMap [simp]: "heapLights (setLightIndexMap m f x) = heapLights m"
  and cache_setLightIndexMap [simp]: "mStateSetCache (setLightIndexMap m f x) = mStateSetCache m"
  and method_setLightIndexMap [simp]: "mLightingMethod (setLightIndexMap m f x) = mLightingMethod m"
  by (simp_all add: setLightIndexMap_def)

lemma updateGPUPointLight_keeps:
  assumes "updateGPUPointLight ext mgr index ls frameNum vm = Some m1"
  shows "heapLights m1 = heapLights mgr" "mStateSetCache m1 = mStateSetCache mgr"
    "mLightingMethod m1 = mLightingMethod mgr"
  using assms by (auto simp: updateGPUPointLight_def Let_def split: bind_splits)

text \<open>The first loop leaves the light sources and the caches alone and combines the
  identifiers in order.\<close>

lemma assignLights_result:
  "assignLights ext frameNum vm ls (hash, mgr) = Some (hash', m1) \<Longrightarrow>
   hash' = foldl (hashCombine ext) hash (map (lightId mgr) ls)
   \<and> heapLights m1 = heapLights mgr
   \<and> mStateSetCache m1 = mStateSetCache mgr
   \<and> mLightingMethod m1 = mLightingMethod mgr"
proof (induction ls arbitrary: hash mgr)
  case Nil
  then show ?case by simp
next
  case (Cons l ls)
  let ?h = "hashCombine ext hash (lightId mgr l)"
  show ?case
  proof (cases "getLightingMethod mgr \<noteq> SingleUBO \<or> fmlookup (getLightIndexMap mgr frameNum) (lightId mgr l) \<noteq> None")
    case True
    then have "assignLights ext frameNum vm ls (?h, mgr) = Some (hash', m1)"
      using Cons.prems by (auto simp: Let_def split: if_splits)
    from Cons.IH[OF this] show ?thesis by simp
  next
    case False
    then obtain m2 where u: "updateGPUPointLight ext mgr
          (int (map_size (getLightIndexMap mgr frameNum)) + 1) (mLightSource l) frameNum vm = Some m2"
      and r: "assignLights ext frameNum vm ls
          (?h, setLightIndexMap m2 frameNum
                 (fmupd (lightId mgr l) (int (map_size (getLightIndexMap mgr frameNum)) + 1)
                    (getLightIndexMap m2 frameNum))) = Some (hash', m1)"
      using Cons.prems by (auto simp: Let_def split: option.splits if_splits)
    let ?m3 = "setLightIndexMap m2 frameNum
                 (fmupd (lightId mgr l) (int (map_size (getLightIndexMap mgr frameNum)) + 1)
                    (getLightIndexMap m2 frameNum))"
    have k: "heapLights ?m3 = heapLights mgr" "mStateSetCache ?m3 = mStateSetCache mgr"
      "mLightingMethod ?m3 = mLightingMethod mgr"
      using updateGPUPointLight_keeps[OF u] by simp_all
    have ids: "map (lightId ?m3) ls = map (lightId mgr) ls"
      using k(1) by (simp add: lightId_def)
    from Cons.IH[OF r] show ?thesis using k ids by simp
  qed
qed

lemma generate_keeps_cache:
  "generate mgr lightList frameNum = Some (ss, m2) \<Longrightarrow> mStateSetCache m2 = mStateSetCache mgr"
  by (auto simp: generate_def generateFFP_def generateSingleUBO_def generatePerObjectUniform_def Let_def
      split: LightingMethod.splits option.splits)

text \<open>After a call, the cache of the frame's parity holds the state set returned under the
  hash of the identifiers, and every entry that was in the cache is still there.\<close>

lemma getLightListStateSet_caches:
  assumes "getLightListStateSet ext mgr lightList frameNum vm = Some (s, mgr')"
  shows "fmlookup (at2 (mStateSetCache mgr') (frameNum mod 2))
           (lightListHash ext (map (lightId mgr) lightList)) = Some s"
proof -
  from assms obtain hash m1 where
    a: "assignLights ext frameNum vm lightList (0, mgr) = Some (hash, m1)"
    by (auto simp: getLightListStateSet_def split: option.splits)
  from assignLights_result[OF a] have h: "hash = lightListHash ext (map (lightId mgr) lightList)"
    and c: "mStateSetCache m1 = mStateSetCache mgr"
    by (simp_all add: lightListHash_def)
  show ?thesis
  proof (cases "fmlookup (at2 (mStateSetCache m1) (frameNum mod 2)) hash")
    case (Some found)
    with assms a have "s = found" "mStateSetCache mgr' = mStateSetCache m1"
      by (auto simp: getLightListStateSet_def Let_def split: option.splits)
    with Some h show ?thesis by simp
  next
    case None
    with assms a obtain ss m2 where g: "generate m1 lightList frameNum = Some (ss, m2)"
      and s: "s = nextStateSet m2"
      and m: "mStateSetCache mgr' = upd2 (mStateSetCache m2) (frameNum mod 2)
                 (fmupd hash (nextStateSet m2) (at2 (mStateSetCache m2) (frameNum mod 2)))"
      by (auto simp: getLightListStateSet_def Let_def split: option.splits)
    show ?thesis unfolding m s h[symmetric] by (simp add: at2_def upd2_def)
  qed
qed

text \<open>A call whose hash is in the cache returns the cached state set.\<close>

lemma getLightListStateSet_hit:
  assumes "getLightListStateSet ext mgr lightList frameNum vm = Some (s, mgr')"
    and "fmlookup (at2 (mStateSetCache mgr) (frameNum mod 2))
           (lightListHash ext (map (lightId mgr) lightList)) = Some found"
  shows "s = found"
proof -
  from assms(1) obtain hash m1 where
    a: "assignLights ext frameNum vm lightList (0, mgr) = Some (hash, m1)"
    by (auto simp: getLightListStateSet_def split: option.splits)
  from assignLights_result[OF a] have h: "hash = lightListHash ext (map (lightId mgr) lightList)"
    and c: "mStateSetCache m1 = mStateSetCache mgr"
    by (simp_all add: lightListHash_def)
  from assms(2) have "fmlookup (at2 (mStateSetCache m1) (frameNum mod 2)) hash = Some found"
    by (simp add: h c)
  with assms(1) a show ?thesis
    by (auto simp: getLightListStateSet_def Let_def split: option.splits)
qed

lemma assignLights_other_tiers:
  "getLightingMethod mgr \<noteq> SingleUBO \<Longrightarrow>
   assignLights ext frameNum vm ls (hash, mgr) =
     Some (foldl (hashCombine ext) hash (map (lightId mgr) ls), mgr)"
  by (induction ls arbitrary: hash) (simp_all add: Let_def)

text \<open>Outside the tier \<open>SingleUBO\<close> a call whose hash is in the cache cannot fail.\<close>

lemma getLightListStateSet_hit_returns:
  assumes "getLightingMethod mgr \<noteq> SingleUBO"
    and "fmlookup (at2 (mStateSetCache mgr) (frameNum mod 2))
           (lightListHash ext (map (lightId mgr) lightList)) = Some found"
  shows "\<exists>mgr'. getLightListStateSet ext mgr lightList frameNum vm = Some (found, mgr')"
proof -
  have a: "assignLights ext frameNum vm lightList (0, mgr) =
      Some (lightListHash ext (map (lightId mgr) lightList), mgr)"
    using assignLights_other_tiers[OF assms(1)] by (simp add: lightListHash_def)
  have u: "generatorUpdate mgr (heapStateSets mgr found) lightList frameNum = Some (heapStateSets mgr found)"
    using assms(1) by (simp add: generatorUpdate_def split: LightingMethod.splits)
  show ?thesis
    using a u assms(2) by (simp add: getLightListStateSet_def Let_def)
qed

section \<open>Limiting the lights of a drawable to the budget\<close>

lemma popToBudget_take: "popToBudget maxLights xs = take maxLights xs"
proof (induction maxLights xs rule: popToBudget.induct)
  case (1 maxLights xs)
  show ?case
  proof (cases "length xs > maxLights")
    case True
    then have "take maxLights (butlast xs) = take maxLights xs"
      by (simp add: take_butlast)
    with True "1.IH" show ?thesis by (simp add: popToBudget.simps[of maxLights xs])
  next
    case False
    then show ?thesis by (simp add: popToBudget.simps[of maxLights xs])
  qed
qed

lemma cullLights_within:
  "before + length xs \<le> maxLights \<Longrightarrow> cullLights isCulled maxLights before xs = xs"
  by (cases xs) simp_all

lemma cullLights_subseq: "subseq (cullLights isCulled maxLights before xs) xs"
  by (induction xs arbitrary: before) (auto intro: subseq_Cons')

lemma cullLights_removed:
  "\<exists>removed. mset xs = mset (cullLights isCulled maxLights before xs) + mset removed
      \<and> (\<forall>l\<in>set removed. isCulled (doubledBound l))"
proof (induction xs arbitrary: before)
  case Nil
  show ?case by simp
next
  case (Cons l rest)
  show ?case
  proof (cases "before + length (l # rest) > maxLights")
    case False
    then have "cullLights isCulled maxLights before (l # rest) = l # rest" by simp
    then show ?thesis by (intro exI[of _ "[]"]) simp
  next
    case over: True
    show ?thesis
    proof (cases "isCulled (doubledBound l)")
      case True
      from Cons.IH[of before] obtain removed where
        r: "mset rest = mset (cullLights isCulled maxLights before rest) + mset removed"
          "\<forall>l\<in>set removed. isCulled (doubledBound l)"
        by blast
      show ?thesis using over True r by (intro exI[of _ "l # removed"]) simp
    next
      case False
      from Cons.IH[of "before + 1"] obtain removed where
        r: "mset rest = mset (cullLights isCulled maxLights (before + 1) rest) + mset removed"
          "\<forall>l\<in>set removed. isCulled (doubledBound l)"
        by blast
      show ?thesis using over False r by (intro exI[of _ removed]) simp
    qed
  qed
qed

text \<open>The loop stops removing once the list is within the budget.\<close>

lemma cullLights_length:
  "before + length xs > maxLights \<Longrightarrow>
   before + length (cullLights isCulled maxLights before xs) \<ge> maxLights"
proof (induction xs arbitrary: before)
  case Nil
  then show ?case by simp
next
  case (Cons l rest)
  show ?case
  proof (cases "isCulled (doubledBound l)")
    case True
    show ?thesis
    proof (cases "before + length rest > maxLights")
      case over: True
      from Cons.IH[OF this] Cons.prems True show ?thesis by simp
    next
      case False
      then have "cullLights isCulled maxLights before rest = rest"
        by (intro cullLights_within) simp
      with Cons.prems True False show ?thesis by simp
    qed
  next
    case False
    show ?thesis
    proof (cases "before + 1 + length rest > maxLights")
      case over: True
      from Cons.IH[OF this] Cons.prems False show ?thesis by simp
    next
      case within: False
      with Cons.prems show ?thesis by simp
    qed
  qed
qed

text \<open>A list still over the budget after the loop has lost all its culled lights.\<close>

lemma cullLights_all_removed:
  "before + length (cullLights isCulled maxLights before xs) > maxLights \<Longrightarrow>
   cullLights isCulled maxLights before xs = filter (\<lambda>l. \<not> isCulled (doubledBound l)) xs"
proof (induction xs arbitrary: before)
  case Nil
  then show ?case by simp
next
  case (Cons l rest)
  have over: "before + length (l # rest) > maxLights"
  proof (rule ccontr)
    assume "\<not> before + length (l # rest) > maxLights"
    then have "cullLights isCulled maxLights before (l # rest) = l # rest"
      "before + length (l # rest) \<le> maxLights" by simp_all
    with Cons.prems show False by simp
  qed
  show ?case
  proof (cases "isCulled (doubledBound l)")
    case True
    with over Cons.prems have "before + length (cullLights isCulled maxLights before rest) > maxLights"
      by simp
    from Cons.IH[OF this] over True show ?thesis by simp
  next
    case False
    with over Cons.prems have "before + 1 + length (cullLights isCulled maxLights (before + 1) rest) > maxLights"
      by simp
    from Cons.IH[OF this] over False show ?thesis by simp
  qed
qed

text \<open>The loop filters a front part of the list and leaves the rest: it stops at the end of
  the list or when the list has come down to the budget.\<close>

lemma cullLights_prefix:
  "before + length xs > maxLights \<Longrightarrow>
   \<exists>front behind. xs = front @ behind
     \<and> cullLights isCulled maxLights before xs = filter (\<lambda>l. \<not> isCulled (doubledBound l)) front @ behind
     \<and> (behind = [] \<or> before + length (cullLights isCulled maxLights before xs) = maxLights)"
proof (induction xs arbitrary: before)
  case Nil
  show ?case by simp
next
  case (Cons l rest)
  let ?keep = "\<lambda>l. \<not> isCulled (doubledBound l)"
  show ?case
  proof (cases "isCulled (doubledBound l)")
    case True
    then have c: "cullLights isCulled maxLights before (l # rest) = cullLights isCulled maxLights before rest"
      using Cons.prems by simp
    show ?thesis
    proof (cases "before + length rest > maxLights")
      case over: True
      from Cons.IH[OF over] obtain front behind where
        f: "rest = front @ behind"
          "cullLights isCulled maxLights before rest = filter ?keep front @ behind"
          "behind = [] \<or> before + length (cullLights isCulled maxLights before rest) = maxLights"
        by blast
      have 1: "l # rest = (l # front) @ behind" using f(1) by simp
      have 2: "cullLights isCulled maxLights before (l # rest) = filter ?keep (l # front) @ behind"
        unfolding c f(2) using True by simp
      have 3: "behind = [] \<or> before + length (cullLights isCulled maxLights before (l # rest)) = maxLights"
        using f(3) by (simp only: c)
      from 1 2 3 show ?thesis by blast
    next
      case False
      then have w: "cullLights isCulled maxLights before rest = rest"
        by (intro cullLights_within) simp
      have 1: "l # rest = [l] @ rest" by simp
      have 2: "cullLights isCulled maxLights before (l # rest) = filter ?keep [l] @ rest"
        unfolding c w using True by simp
      have 3: "rest = [] \<or> before + length (cullLights isCulled maxLights before (l # rest)) = maxLights"
        unfolding c w using False Cons.prems by simp
      from 1 2 3 show ?thesis by blast
    qed
  next
    case False
    then have c: "cullLights isCulled maxLights before (l # rest)
        = l # cullLights isCulled maxLights (before + 1) rest"
      using Cons.prems by simp
    have over: "before + 1 + length rest > maxLights" using Cons.prems by simp
    from Cons.IH[OF over] obtain front behind where
      f: "rest = front @ behind"
        "cullLights isCulled maxLights (before + 1) rest = filter ?keep front @ behind"
        "behind = [] \<or> before + 1 + length (cullLights isCulled maxLights (before + 1) rest) = maxLights"
      by blast
    have 1: "l # rest = (l # front) @ behind" using f(1) by simp
    have 2: "cullLights isCulled maxLights before (l # rest) = filter ?keep (l # front) @ behind"
      unfolding c f(2) using False by simp
    have 3: "behind = [] \<or> before + length (cullLights isCulled maxLights before (l # rest)) = maxLights"
      unfolding c using f(3) by simp
    from 1 2 3 show ?thesis by blast
  qed
qed

text \<open>The test of the loop and the key of the comparison are those that the specification
  names.\<close>

lemma doubledBound_rejected: "cullingFront cv (doubledBound l) = rejected cv l"
  by (cases "mViewBound l") (simp add: doubledBound_def rejected_def mult.commute)

lemma sortLightsKey_illumination: "sortLightsKey l = illumination l"
  by (simp add: sortLightsKey_def illumination_def length2_def radius2_def power2_eq_square)

lemma usableBudget_refreshLightList:
  "usableBudget (snd (refreshLightList ext cb mgr nodeBound cv)) = usableBudget mgr"
  by (simp add: refreshLightList_def getLightsInViewSpace_def lookupOrCollect_def usableBudget_def
      getMaxLights_def getStartLight_def Let_def split: prod.splits option.splits)

text \<open>A manager of the tier \<open>PerObjectUniform\<close> with empty caches answers a request with a new
  state set whose attribute holds the lights of the list, in order.\<close>

lemma getLightListStateSet_perObject:
  assumes "getLightingMethod mgr = PerObjectUniform" and "mStateSetCache mgr = (fmempty, fmempty)"
  shows "\<exists>m2. getLightListStateSet ext mgr lightList frameNum vm = Some (nextStateSet mgr, m2)
     \<and> attributes (heapStateSets m2 (nextStateSet mgr)) =
         [LightStateAttributePerObjectUniform (map (\<lambda>l. (mLightSource l, frameNum mod 2)) lightList)]"
proof -
  have a: "assignLights ext frameNum vm lightList (0, mgr) =
      Some (lightListHash ext (map (lightId mgr) lightList), mgr)"
    using assignLights_other_tiers[of mgr ext frameNum vm lightList 0] assms(1)
    by (simp add: lightListHash_def)
  show ?thesis
    using assms
    by (simp add: getLightListStateSet_def a generate_def generatePerObjectUniform_def Let_def
        at2_def emptyStateSet_def)
qed

text \<open>Claim C5, as amended. Let the light list of the callback, as it stands after the block
  that recomputes it once per frame, have more elements than the usable budget, which is
  \<open>getMaxLights() - getStartLight()\<close> where that is not negative. \<open>pushLightState\<close> walks the
  list from the front and removes the lights whose view bound with doubled radius is culled by
  the front culling set, but only as long as the list is over the budget: the lights behind
  the point where the list has come down to the budget stay, culled or not. What is left has at
  least as many elements as the budget. If it has more, the walk has reached the end, every
  culled light is gone, and the list is sorted ascending in distance squared minus radius
  squared times 81 and cut from the behind to the budget, so that no dropped light has a smaller
  key than a retained one. The list has then exactly as many elements as the budget, and the
  result of \<open>pushLightState\<close> is that of requesting the state set for exactly that list. This
  holds for every \<open>std::sort\<close> that meets its contract.\<close>

theorem pushLightState_over_budget:
  assumes contract: "stdSortContract ext"
    and mask: "ucast (traversalMask cv) AND mLightingMask mgr \<noteq> 0"
    and refreshed: "refreshLightList ext cb mgr nodeBound cv = (cb1, m1)"
    and over: "length (mLightList cb1) > usableBudget m1"
  shows "\<exists>front behind walked reduced.
      mLightList cb1 = front @ behind
      \<and> walked = filter (\<lambda>l. \<not> rejected cv l) front @ behind
      \<and> (behind = [] \<or> length walked = usableBudget m1)
      \<and> length walked \<ge> usableBudget m1
      \<and> subseq walked (mLightList cb1)
      \<and> (\<exists>removed. mset (mLightList cb1) = mset walked + mset removed
            \<and> (\<forall>l\<in>set removed. rejected cv l))
      \<and> (length walked > usableBudget m1 \<longrightarrow>
            walked = filter (\<lambda>l. \<not> rejected cv l) (mLightList cb1)
            \<and> reduced = take (usableBudget m1) (stdSort ext sortLights walked)
            \<and> sorted (map illumination reduced)
            \<and> (\<exists>dropped. mset walked = mset reduced + mset dropped
                  \<and> (\<forall>x\<in>set reduced. \<forall>y\<in>set dropped. illumination x \<le> illumination y)))
      \<and> (length walked \<le> usableBudget m1 \<longrightarrow> reduced = walked)
      \<and> length reduced = usableBudget m1
      \<and> usableBudget m1 = usableBudget mgr
      \<and> (getStartLight mgr \<le> getMaxLights mgr \<and> getMaxLights mgr - getStartLight mgr < 2 ^ 64 \<longrightarrow>
            int (usableBudget mgr) = getMaxLights mgr - getStartLight mgr)
      \<and> pushLightState ext cb mgr nodeBound cv =
          (case getLightListStateSet ext m1 reduced (traversalNumber cv) (initialViewMatrix cv) of
             None \<Rightarrow> None
           | Some (stateset, m2) \<Rightarrow> Some (True, cb1, m2, Some stateset))"
proof -
  let ?n = "usableBudget m1"
  let ?P = "cullingFront cv"
  let ?walked = "cullLights ?P ?n 0 (mLightList cb1)"
  let ?sorted = "stdSort ext sortLights ?walked"
  let ?reduced = "limitLightList ext cv ?n (mLightList cb1)"
  have rej: "(\<lambda>l. \<not> ?P (doubledBound l)) = (\<lambda>l. \<not> rejected cv l)"
    by (rule ext) (simp add: doubledBound_rejected)
  have key: "sortLightsKey = illumination" by (rule ext) (rule sortLightsKey_illumination)
  have s: "mset ?sorted = mset ?walked" "sorted (map sortLightsKey ?sorted)"
    using contract unfolding stdSortContract_def sortLights_def by blast+
  have len_sorted: "length ?sorted = length ?walked"
    using s(1) by (metis size_mset)
  have red: "?reduced = (if length ?walked > ?n then take ?n ?sorted else ?walked)"
    by (simp add: limitLightList_def Let_def popToBudget_take)
  have c4: "length ?walked \<ge> ?n"
    using cullLights_length[where before = 0 and xs = "mLightList cb1" and maxLights = ?n
        and isCulled = ?P] over by simp
  have "\<exists>front behind. mLightList cb1 = front @ behind
      \<and> ?walked = filter (\<lambda>l. \<not> ?P (doubledBound l)) front @ behind
      \<and> (behind = [] \<or> 0 + length ?walked = ?n)"
    using over by (intro cullLights_prefix) simp
  then obtain front behind where c1: "mLightList cb1 = front @ behind"
    and c2': "?walked = filter (\<lambda>l. \<not> ?P (doubledBound l)) front @ behind"
    and c3': "behind = [] \<or> 0 + length ?walked = ?n"
    by blast
  have c2: "?walked = filter (\<lambda>l. \<not> rejected cv l) front @ behind"
    using c2' unfolding rej .
  have c3: "behind = [] \<or> length ?walked = ?n" using c3' by simp
  from cullLights_removed[where xs = "mLightList cb1" and isCulled = ?P and maxLights = ?n
      and before = 0] obtain removed where
    rem: "mset (mLightList cb1) = mset ?walked + mset removed"
      "\<forall>l\<in>set removed. ?P (doubledBound l)"
    by blast
  have c6: "\<exists>removed. mset (mLightList cb1) = mset ?walked + mset removed
            \<and> (\<forall>l\<in>set removed. rejected cv l)"
    using rem unfolding doubledBound_rejected by (intro exI[of _ removed] conjI)
  have c5: "subseq ?walked (mLightList cb1)" by (rule cullLights_subseq)
  have c7: "length ?walked > ?n \<longrightarrow>
            ?walked = filter (\<lambda>l. \<not> rejected cv l) (mLightList cb1)
            \<and> ?reduced = take ?n ?sorted
            \<and> sorted (map illumination ?reduced)
            \<and> (\<exists>dropped. mset ?walked = mset ?reduced + mset dropped
                  \<and> (\<forall>x\<in>set ?reduced. \<forall>y\<in>set dropped. illumination x \<le> illumination y))"
  proof
    assume gt: "length ?walked > ?n"
    have a: "?walked = filter (\<lambda>l. \<not> rejected cv l) (mLightList cb1)"
      using cullLights_all_removed[where maxLights = ?n and before = 0 and isCulled = ?P
          and xs = "mLightList cb1"] gt unfolding rej by simp
    have b: "?reduced = take ?n ?sorted" using gt by (simp add: red)
    have c: "sorted (map illumination ?reduced)"
      unfolding b using s(2) sorted_wrt_take[of "(\<le>)" "map sortLightsKey ?sorted" ?n]
      by (simp add: take_map key)
    have "mset ?walked = mset ?reduced + mset (drop ?n ?sorted)
        \<and> (\<forall>x\<in>set ?reduced. \<forall>y\<in>set (drop ?n ?sorted). sortLightsKey x \<le> sortLightsKey y)"
      unfolding b using take_sorted_smallest[OF s, of ?n] by simp
    then have d: "\<exists>dropped. mset ?walked = mset ?reduced + mset dropped
                  \<and> (\<forall>x\<in>set ?reduced. \<forall>y\<in>set dropped. illumination x \<le> illumination y)"
      unfolding key by (intro exI[of _ "drop ?n ?sorted"])
    from a b c d show "?walked = filter (\<lambda>l. \<not> rejected cv l) (mLightList cb1)
            \<and> ?reduced = take ?n ?sorted
            \<and> sorted (map illumination ?reduced)
            \<and> (\<exists>dropped. mset ?walked = mset ?reduced + mset dropped
                  \<and> (\<forall>x\<in>set ?reduced. \<forall>y\<in>set dropped. illumination x \<le> illumination y))"
      by (intro conjI)
  qed
  have c8: "length ?walked \<le> ?n \<longrightarrow> ?reduced = ?walked" by (simp add: red)
  have c9: "length ?reduced = ?n" using c4 len_sorted by (simp add: red)
  have c10: "usableBudget m1 = usableBudget mgr"
    using usableBudget_refreshLightList[of ext cb mgr nodeBound cv] by (simp add: refreshed)
  have c11: "getStartLight mgr \<le> getMaxLights mgr \<and> getMaxLights mgr - getStartLight mgr < 2 ^ 64 \<longrightarrow>
            int (usableBudget mgr) = getMaxLights mgr - getStartLight mgr"
    by (simp add: usableBudget_def to_size_t_def)
  have ne: "mLightList cb1 \<noteq> []" using over by auto
  have c12: "pushLightState ext cb mgr nodeBound cv =
          (case getLightListStateSet ext m1 ?reduced (traversalNumber cv) (initialViewMatrix cv) of
             None \<Rightarrow> None
           | Some (stateset, m2) \<Rightarrow> Some (True, cb1, m2, Some stateset))"
    using mask refreshed over ne by (simp add: pushLightState_def Let_def)
  show ?thesis
    by (rule exI[of _ front], rule exI[of _ behind], rule exI[of _ ?walked], rule exI[of _ ?reduced],
        intro conjI)
       (rule c1 c2 c3 c4 c5 c6 c7 c8 c9 c10 c11 c12)+
qed

text \<open>The lists that the loop, the sort and the cut leave of the two example lists.\<close>

lemma threeLight_limit:
  "limitLightList translationExternals nearVisitor 1 [lightAt 1 40 1, lightAt 2 20 1, lightAt 3 30 3]
     = [lightAt 3 30 3]"
proof -
  have cull: "cullLights (cullingFront nearVisitor) 1 0 [lightAt 1 40 1, lightAt 2 20 1, lightAt 3 30 3]
      = [lightAt 2 20 1, lightAt 3 30 3]"
    by (simp add: nearVisitor_def doubledBound_def lightAt_def)
  have srt: "stdSort translationExternals sortLights [lightAt 2 20 1, lightAt 3 30 3]
      = [lightAt 3 30 3, lightAt 2 20 1]"
    by (simp add: translationExternals_def insertionSort_def sortLights_def sortLightsKey_def
        lightAt_def length2_def radius2_def)
  show ?thesis
    unfolding limitLightList_def Let_def cull srt popToBudget_take by simp
qed

lemma farFirst_limit:
  "limitLightList translationExternals nearVisitor 2 [lightAt 1 30 1, lightAt 2 40 1, lightAt 3 10 1]
     = [lightAt 2 40 1, lightAt 3 10 1]"
proof -
  have cull: "cullLights (cullingFront nearVisitor) 2 0 [lightAt 1 30 1, lightAt 2 40 1, lightAt 3 10 1]
      = [lightAt 2 40 1, lightAt 3 10 1]"
    by (simp add: nearVisitor_def doubledBound_def lightAt_def)
  show ?thesis
    unfolding limitLightList_def Let_def cull by simp
qed

theorem pushLightState_over_budget_witness:
  "stdSortContract translationExternals
   \<and> ucast (traversalMask nearVisitor) AND mLightingMask oneSlotManager \<noteq> 0
   \<and> refreshLightList translationExternals threeLightCallback oneSlotManager
         \<lparr>center = \<lparr>v3x = 0, v3y = 0, v3z = 0\<rparr>, radius = 1\<rparr> nearVisitor
       = (threeLightCallback, oneSlotManager)
   \<and> length (mLightList threeLightCallback) > usableBudget oneSlotManager
   \<and> usableBudget oneSlotManager = 1
   \<and> rejected nearVisitor (lightAt 1 40 1)
   \<and> \<not> rejected nearVisitor (lightAt 3 30 3)
   \<and> cullingFront nearVisitor (mViewBound (lightAt 3 30 3))
   \<and> illumination (lightAt 3 30 3) = 171
   \<and> illumination (lightAt 2 20 1) = 319
   \<and> (\<exists>reduced. length reduced = 1
         \<and> pushLightState translationExternals threeLightCallback oneSlotManager
               \<lparr>center = \<lparr>v3x = 0, v3y = 0, v3z = 0\<rparr>, radius = 1\<rparr> nearVisitor
             = (case getLightListStateSet translationExternals oneSlotManager reduced 4
                       \<lparr>v3x = 0, v3y = 0, v3z = 0\<rparr> of
                  None \<Rightarrow> None
                | Some (stateset, m2) \<Rightarrow> Some (True, threeLightCallback, m2, Some stateset)))
   \<and> (\<exists>m2. pushLightState translationExternals threeLightCallback oneSlotManager
               \<lparr>center = \<lparr>v3x = 0, v3y = 0, v3z = 0\<rparr>, radius = 1\<rparr> nearVisitor
             = Some (True, threeLightCallback, m2, Some 0)
          \<and> attributes (heapStateSets m2 0) = [LightStateAttributePerObjectUniform [(3, 0)]])"
proof -
  let ?nb = "\<lparr>center = \<lparr>v3x = 0, v3y = 0, v3z = 0\<rparr>, radius = 1\<rparr>"
  let ?vm = "\<lparr>v3x = 0, v3y = 0, v3z = 0\<rparr> :: Vec3f"
  have h2: "ucast (traversalMask nearVisitor) AND mLightingMask oneSlotManager \<noteq> 0"
    by (simp add: nearVisitor_def oneSlotManager_def perObjectManager_def freshManager_def)
  have h3: "refreshLightList translationExternals threeLightCallback oneSlotManager ?nb nearVisitor
       = (threeLightCallback, oneSlotManager)"
    by (simp add: refreshLightList_def threeLightCallback_def nearVisitor_def)
  have b: "usableBudget oneSlotManager = 1"
    by (simp add: usableBudget_def oneSlotManager_def getMaxLights_def getStartLight_def to_size_t_def)
  have ml: "mLightList threeLightCallback = [lightAt 1 40 1, lightAt 2 20 1, lightAt 3 30 3]"
    by (simp add: threeLightCallback_def)
  have h4: "length (mLightList threeLightCallback) > usableBudget oneSlotManager"
    by (simp add: b ml)
  have tn: "traversalNumber nearVisitor = 4" "initialViewMatrix nearVisitor = ?vm"
    by (simp_all add: nearVisitor_def)
  have r1: "rejected nearVisitor (lightAt 1 40 1)" "\<not> rejected nearVisitor (lightAt 3 30 3)"
    "cullingFront nearVisitor (mViewBound (lightAt 3 30 3))"
    by (simp_all add: rejected_def nearVisitor_def lightAt_def)
  have i: "illumination (lightAt 3 30 3) = 171" "illumination (lightAt 2 20 1) = 319"
    by (simp_all add: illumination_def lightAt_def)
  from pushLightState_over_budget[OF stdSortContract_translation h2 h3 h4]
  obtain reduced where r: "length reduced = usableBudget oneSlotManager"
    "pushLightState translationExternals threeLightCallback oneSlotManager ?nb nearVisitor =
          (case getLightListStateSet translationExternals oneSlotManager reduced
                  (traversalNumber nearVisitor) (initialViewMatrix nearVisitor) of
             None \<Rightarrow> None
           | Some (stateset, m2) \<Rightarrow> Some (True, threeLightCallback, m2, Some stateset))"
    by (elim exE conjE)
  have c: "\<exists>reduced. length reduced = 1
         \<and> pushLightState translationExternals threeLightCallback oneSlotManager ?nb nearVisitor
             = (case getLightListStateSet translationExternals oneSlotManager reduced 4 ?vm of
                  None \<Rightarrow> None
                | Some (stateset, m2) \<Rightarrow> Some (True, threeLightCallback, m2, Some stateset))"
    using r unfolding b tn by (intro exI[of _ reduced] conjI)
  have p: "pushLightState translationExternals threeLightCallback oneSlotManager ?nb nearVisitor =
      (case getLightListStateSet translationExternals oneSlotManager [lightAt 3 30 3] 4 ?vm of
         None \<Rightarrow> None
       | Some (stateset, m2) \<Rightarrow> Some (True, threeLightCallback, m2, Some stateset))"
  proof -
    have ne: "mLightList threeLightCallback \<noteq> []" by (simp add: ml)
    have "pushLightState translationExternals threeLightCallback oneSlotManager ?nb nearVisitor =
        (case getLightListStateSet translationExternals oneSlotManager
                (limitLightList translationExternals nearVisitor (usableBudget oneSlotManager)
                   (mLightList threeLightCallback)) 4 ?vm of
           None \<Rightarrow> None
         | Some (stateset, m2) \<Rightarrow> Some (True, threeLightCallback, m2, Some stateset))"
      using h2 h4 ne by (simp add: pushLightState_def h3 tn Let_def)
    then show ?thesis unfolding b ml threeLight_limit .
  qed
  have k: "getLightingMethod oneSlotManager = PerObjectUniform"
    "mStateSetCache oneSlotManager = (fmempty, fmempty)" "nextStateSet oneSlotManager = 0"
    by (simp_all add: getLightingMethod_def oneSlotManager_def perObjectManager_def freshManager_def)
  from getLightListStateSet_perObject[OF k(1,2), of translationExternals "[lightAt 3 30 3]" 4 ?vm]
  obtain m2 where g: "getLightListStateSet translationExternals oneSlotManager [lightAt 3 30 3] 4 ?vm
        = Some (0, m2)"
    and a: "attributes (heapStateSets m2 0) = [LightStateAttributePerObjectUniform [(3, 0)]]"
    by (auto simp: k(3) lightAt_def)
  have e: "\<exists>m2. pushLightState translationExternals threeLightCallback oneSlotManager ?nb nearVisitor
             = Some (True, threeLightCallback, m2, Some 0)
          \<and> attributes (heapStateSets m2 0) = [LightStateAttributePerObjectUniform [(3, 0)]]"
    using a unfolding p g by (intro exI[of _ m2]) simp
  from stdSortContract_translation h2 h3 h4 b r1 i c e show ?thesis by (intro conjI)
qed

text \<open>The claim as stated fails where it has the culled lights removed first. The loop stops
  as soon as the list is within the budget: with a budget of two lights and the lights at the
  distances 30, 40 and 10, of which the first two lie beyond the distance 25 even with their
  radius doubled, only the first light is removed, and the state set is requested for the
  lights at 40 and at 10, although the light at 40 is culled.\<close>

theorem pushLightState_keeps_culled_counterexample:
  "length (mLightList farFirstCallback) > usableBudget twoSlotManager
   \<and> usableBudget twoSlotManager = 2
   \<and> rejected nearVisitor (lightAt 2 40 1)
   \<and> (\<exists>m2. pushLightState translationExternals farFirstCallback twoSlotManager
               \<lparr>center = \<lparr>v3x = 0, v3y = 0, v3z = 0\<rparr>, radius = 1\<rparr> nearVisitor
             = Some (True, farFirstCallback, m2, Some 0)
          \<and> attributes (heapStateSets m2 0) = [LightStateAttributePerObjectUniform [(2, 0), (3, 0)]])"
proof -
  let ?nb = "\<lparr>center = \<lparr>v3x = 0, v3y = 0, v3z = 0\<rparr>, radius = 1\<rparr>"
  let ?vm = "\<lparr>v3x = 0, v3y = 0, v3z = 0\<rparr> :: Vec3f"
  have h2: "ucast (traversalMask nearVisitor) AND mLightingMask twoSlotManager \<noteq> 0"
    by (simp add: nearVisitor_def twoSlotManager_def perObjectManager_def freshManager_def)
  have h3: "refreshLightList translationExternals farFirstCallback twoSlotManager ?nb nearVisitor
       = (farFirstCallback, twoSlotManager)"
    by (simp add: refreshLightList_def farFirstCallback_def nearVisitor_def)
  have b: "usableBudget twoSlotManager = 2"
    by (simp add: usableBudget_def twoSlotManager_def getMaxLights_def getStartLight_def to_size_t_def)
  have ml: "mLightList farFirstCallback = [lightAt 1 30 1, lightAt 2 40 1, lightAt 3 10 1]"
    by (simp add: farFirstCallback_def)
  have h4: "length (mLightList farFirstCallback) > usableBudget twoSlotManager"
    by (simp add: b ml)
  have tn: "traversalNumber nearVisitor = 4" "initialViewMatrix nearVisitor = ?vm"
    by (simp_all add: nearVisitor_def)
  have r1: "rejected nearVisitor (lightAt 2 40 1)"
    by (simp add: rejected_def nearVisitor_def lightAt_def)
  have p: "pushLightState translationExternals farFirstCallback twoSlotManager ?nb nearVisitor =
      (case getLightListStateSet translationExternals twoSlotManager [lightAt 2 40 1, lightAt 3 10 1] 4 ?vm of
         None \<Rightarrow> None
       | Some (stateset, m2) \<Rightarrow> Some (True, farFirstCallback, m2, Some stateset))"
  proof -
    have ne: "mLightList farFirstCallback \<noteq> []" by (simp add: ml)
    have "pushLightState translationExternals farFirstCallback twoSlotManager ?nb nearVisitor =
        (case getLightListStateSet translationExternals twoSlotManager
                (limitLightList translationExternals nearVisitor (usableBudget twoSlotManager)
                   (mLightList farFirstCallback)) 4 ?vm of
           None \<Rightarrow> None
         | Some (stateset, m2) \<Rightarrow> Some (True, farFirstCallback, m2, Some stateset))"
      using h2 h4 ne by (simp add: pushLightState_def h3 tn Let_def)
    then show ?thesis unfolding b ml farFirst_limit .
  qed
  have k: "getLightingMethod twoSlotManager = PerObjectUniform"
    "mStateSetCache twoSlotManager = (fmempty, fmempty)" "nextStateSet twoSlotManager = 0"
    by (simp_all add: getLightingMethod_def twoSlotManager_def perObjectManager_def freshManager_def)
  from getLightListStateSet_perObject[OF k(1,2), of translationExternals
      "[lightAt 2 40 1, lightAt 3 10 1]" 4 ?vm]
  obtain m2 where g: "getLightListStateSet translationExternals twoSlotManager
        [lightAt 2 40 1, lightAt 3 10 1] 4 ?vm = Some (0, m2)"
    and a: "attributes (heapStateSets m2 0) = [LightStateAttributePerObjectUniform [(2, 0), (3, 0)]]"
    by (auto simp: k(3) lightAt_def)
  have e: "\<exists>m2. pushLightState translationExternals farFirstCallback twoSlotManager ?nb nearVisitor
             = Some (True, farFirstCallback, m2, Some 0)
          \<and> attributes (heapStateSets m2 0) = [LightStateAttributePerObjectUniform [(2, 0), (3, 0)]]"
    using a unfolding p g by (intro exI[of _ m2]) simp
  from h4 b r1 e show ?thesis by (intro conjI)
qed

section \<open>The state set cache returns the same object\<close>

text \<open>Claim C6. Let a call of \<open>getLightListStateSet\<close> return the state set at address \<open>s1\<close>.
  Consider a later call in a state whose cache of that frame parity still holds every entry it
  held after the first call (no cache clear in between), with a frame number of the same parity
  and a light list with the same sequence of identifiers. Whenever that call returns, it
  returns the address \<open>s1\<close>, the very same object; outside the tier \<open>SingleUBO\<close> it does
  return. The key under which the object is cached is the hash that combines the identifiers
  in the order of the list, so the key depends on the order: for the example hash the lists
  \<open>[1, 2]\<close> and \<open>[2, 1]\<close> have different keys.\<close>

theorem getLightListStateSet_same_object:
  assumes first: "getLightListStateSet ext mgr lightList1 frameNum1 vm1 = Some (s1, mgr1)"
    and kept: "\<forall>h a. fmlookup (at2 (mStateSetCache mgr1) (frameNum1 mod 2)) h = Some a \<longrightarrow>
                    fmlookup (at2 (mStateSetCache mgr2) (frameNum1 mod 2)) h = Some a"
    and ids: "map (lightId mgr2) lightList2 = map (lightId mgr) lightList1"
    and parity: "frameNum2 mod 2 = frameNum1 mod 2"
  shows "(\<forall>s2 mgr3. getLightListStateSet ext mgr2 lightList2 frameNum2 vm2 = Some (s2, mgr3) \<longrightarrow> s2 = s1)
     \<and> (getLightingMethod mgr2 \<noteq> SingleUBO \<longrightarrow>
          (\<exists>mgr3. getLightListStateSet ext mgr2 lightList2 frameNum2 vm2 = Some (s1, mgr3)))
     \<and> fmlookup (at2 (mStateSetCache mgr1) (frameNum1 mod 2))
          (lightListHash ext (map (lightId mgr) lightList1)) = Some s1
     \<and> lightListHash translationExternals [1, 2] \<noteq> lightListHash translationExternals [2, 1]"
proof -
  have c1: "fmlookup (at2 (mStateSetCache mgr1) (frameNum1 mod 2))
          (lightListHash ext (map (lightId mgr) lightList1)) = Some s1"
    by (rule getLightListStateSet_caches[OF first])
  with kept have c2: "fmlookup (at2 (mStateSetCache mgr2) (frameNum2 mod 2))
          (lightListHash ext (map (lightId mgr2) lightList2)) = Some s1"
    by (simp add: ids parity)
  have same: "\<forall>s2 mgr3. getLightListStateSet ext mgr2 lightList2 frameNum2 vm2 = Some (s2, mgr3) \<longrightarrow> s2 = s1"
    using getLightListStateSet_hit[OF _ c2] by blast
  have returns: "getLightingMethod mgr2 \<noteq> SingleUBO \<longrightarrow>
          (\<exists>mgr3. getLightListStateSet ext mgr2 lightList2 frameNum2 vm2 = Some (s1, mgr3))"
    using getLightListStateSet_hit_returns[OF _ c2] by blast
  have order: "lightListHash translationExternals [1, 2] \<noteq> lightListHash translationExternals [2, 1]"
    by (simp add: lightListHash_def translationExternals_def)
  from same returns c1 order show ?thesis by (intro conjI)
qed

theorem getLightListStateSet_same_object_witness:
  "\<exists>mgr1 mgr3.
     getLightListStateSet translationExternals perObjectManager oneLightList 0 \<lparr>v3x = 0, v3y = 0, v3z = 0\<rparr>
       = Some (0, mgr1)
     \<and> map (lightId mgr1) oneLightList = map (lightId perObjectManager) oneLightList
     \<and> (2::nat) mod 2 = 0 mod 2
     \<and> getLightListStateSet translationExternals mgr1 oneLightList 2 \<lparr>v3x = 0, v3y = 0, v3z = 0\<rparr>
       = Some (0, mgr3)"
proof -
  let ?vm = "\<lparr>v3x = 0, v3y = 0, v3z = 0\<rparr> :: Vec3f"
  have "\<exists>mgr1. getLightListStateSet translationExternals perObjectManager oneLightList 0 ?vm = Some (0, mgr1)
            \<and> map (lightId mgr1) oneLightList = map (lightId perObjectManager) oneLightList
            \<and> getLightingMethod mgr1 \<noteq> SingleUBO"
    by (simp add: getLightListStateSet_def perObjectManager_def freshManager_def oneLightList_def
        getLightingMethod_def lightId_def generate_def generatePerObjectUniform_def Let_def
        at2_def upd2_def setLightRadius_def setLight_def getLight_def)
  then obtain mgr1 where
    first: "getLightListStateSet translationExternals perObjectManager oneLightList 0 ?vm = Some (0, mgr1)"
    and ids: "map (lightId mgr1) oneLightList = map (lightId perObjectManager) oneLightList"
    and tier: "getLightingMethod mgr1 \<noteq> SingleUBO"
    by blast
  have kept: "\<forall>h a. fmlookup (at2 (mStateSetCache mgr1) (0 mod 2)) h = Some a \<longrightarrow>
                    fmlookup (at2 (mStateSetCache mgr1) (0 mod 2)) h = Some a"
    by simp
  have parity: "(2::nat) mod 2 = 0 mod 2" by simp
  from getLightListStateSet_same_object[OF first kept ids parity, of ?vm] tier
  obtain mgr3 where "getLightListStateSet translationExternals mgr1 oneLightList 2 ?vm = Some (0, mgr3)"
    by blast
  with first ids parity show ?thesis by blast
qed

section \<open>The update hook stays inside the light list\<close>

lemma updateGPUPointLight_preserves:
  assumes "\<And>m f b. F (setLightBuffer m f b) = F m"
    and "updateGPUPointLight ext mgr index ls frameNum vm = Some m1"
  shows "F m1 = F mgr"
  using assms(2) by (auto simp: updateGPUPointLight_def Let_def assms(1) split: bind_splits)

lemma assignLights_preserves:
  assumes b: "\<And>m f b. F (setLightBuffer m f b) = F m"
    and i: "\<And>m f x. F (setLightIndexMap m f x) = F m"
  shows "assignLights ext frameNum vm ls (hash, mgr) = Some (hash', m1) \<Longrightarrow> F m1 = F mgr"
proof (induction ls arbitrary: hash mgr)
  case Nil
  then show ?case by simp
next
  case (Cons l ls)
  show ?case
  proof (cases "getLightingMethod mgr \<noteq> SingleUBO \<or> fmlookup (getLightIndexMap mgr frameNum) (lightId mgr l) \<noteq> None")
    case True
    then have "assignLights ext frameNum vm ls (hashCombine ext hash (lightId mgr l), mgr) = Some (hash', m1)"
      using Cons.prems by (auto simp: Let_def split: if_splits)
    from Cons.IH[OF this] show ?thesis .
  next
    case False
    then obtain m2 where u: "updateGPUPointLight ext mgr
          (int (map_size (getLightIndexMap mgr frameNum)) + 1) (mLightSource l) frameNum vm = Some m2"
      and r: "assignLights ext frameNum vm ls
          (hashCombine ext hash (lightId mgr l), setLightIndexMap m2 frameNum
                 (fmupd (lightId mgr l) (int (map_size (getLightIndexMap mgr frameNum)) + 1)
                    (getLightIndexMap m2 frameNum))) = Some (hash', m1)"
      using Cons.prems by (auto simp: Let_def split: option.splits if_splits)
    from Cons.IH[OF r] updateGPUPointLight_preserves[of F, OF b u] show ?thesis
      by (simp add: i)
  qed
qed

lemma assignLights_statesets:
  assumes "assignLights ext frameNum vm ls (hash, mgr) = Some (hash', m1)"
  shows "heapStateSets m1 = heapStateSets mgr" "nextStateSet m1 = nextStateSet mgr"
    "mMaxLights m1 = mMaxLights mgr"
proof -
  show "heapStateSets m1 = heapStateSets mgr"
    by (rule assignLights_preserves[of heapStateSets, OF _ _ assms])
       (simp_all add: setLightBuffer_def setLightIndexMap_def)
  show "nextStateSet m1 = nextStateSet mgr"
    by (rule assignLights_preserves[of nextStateSet, OF _ _ assms])
       (simp_all add: setLightBuffer_def setLightIndexMap_def)
  show "mMaxLights m1 = mMaxLights mgr"
    by (rule assignLights_preserves[of mMaxLights, OF _ _ assms])
       (simp_all add: setLightBuffer_def setLightIndexMap_def)
qed

lemma fillIndices_count:
  "fillIndices ids (indexMap, indices, pointCount) = Some (indexMap', indices', pointCount') \<Longrightarrow>
   pointCount' = pointCount + length ids"
proof (induction ids arbitrary: indexMap indices pointCount)
  case Nil
  then show ?case by simp
next
  case (Cons ident rest)
  from Cons.prems have lt: "pointCount < length indices"
    by (auto simp: Let_def split: if_splits)
  with Cons.prems obtain im ix where
    "fillIndices rest (im, ix, pointCount + 1) = Some (indexMap', indices', pointCount')"
    by (auto simp: Let_def)
  from Cons.IH[OF this] show ?case by simp
qed

lemma generateSingleUBO_result:
  assumes "generateSingleUBO mgr lightList frameNum = Some (ss, m2)"
  shows "uPointLightCount ss = Some (int (length lightList))" "uPointLightIndex ss \<noteq> None"
    "mStateSetCache m2 = mStateSetCache mgr" "heapStateSets m2 = heapStateSets mgr"
    "nextStateSet m2 = nextStateSet mgr" "mLightingMethod m2 = mLightingMethod mgr"
proof -
  from assms obtain indexMap indices pointCount where
    f: "fillIndices (map (lightId mgr) lightList)
             (getLightIndexMap mgr frameNum, replicate (nat (getMaxLights mgr)) 0, 0)
          = Some (indexMap, indices, pointCount)"
    and ss: "ss = emptyStateSet\<lparr>uPointLightIndex := Some \<lparr>uniformType = IntUniform, intArray = indices\<rparr>,
                                uPointLightCount := Some (int pointCount)\<rparr>"
    and m2: "m2 = setLightIndexMap mgr frameNum indexMap"
    by (auto simp: generateSingleUBO_def split: option.splits)
  from fillIndices_count[OF f] have "pointCount = length lightList" by simp
  then show "uPointLightCount ss = Some (int (length lightList))" by (simp add: ss)
  show "uPointLightIndex ss \<noteq> None" by (simp add: ss)
  show "mStateSetCache m2 = mStateSetCache mgr" "heapStateSets m2 = heapStateSets mgr"
    "nextStateSet m2 = nextStateSet mgr" "mLightingMethod m2 = mLightingMethod mgr"
    by (simp_all add: m2 setLightIndexMap_def)
qed

text \<open>The loop of the update hook reads inside the list as long as its indices are inside,
  and counts at most one slot for each index.\<close>

lemma revalidate_in_bounds:
  "\<forall>i\<in>set idx. i < length lightList \<Longrightarrow>
   \<exists>arr' newCount'. revalidate mgr lightData lightList idx (arr, newCount) = Some (arr', newCount')
      \<and> newCount' \<le> newCount + length idx \<and> length arr' = length arr"
proof (induction idx arbitrary: arr newCount)
  case Nil
  then show ?case by simp
next
  case (Cons i rest)
  have i: "i < length lightList" and rest: "\<forall>i\<in>set rest. i < length lightList"
    using Cons.prems by simp_all
  show ?case
  proof (cases "fmlookup lightData (lightId mgr (lightList ! i))")
    case None
    with i Cons.IH[OF rest, of arr newCount] show ?thesis by auto
  next
    case (Some slot)
    with i Cons.IH[OF rest, of "arr[newCount := slot]" "newCount + 1"] show ?thesis by auto
  qed
qed

lemma updateSingleUBO_in_bounds:
  assumes "uPointLightIndex ss = Some arr" and "uPointLightCount ss = Some cnt"
    and "min (getMaxLights mgr) cnt \<le> int (length lightList)"
  shows "\<exists>ss' cnt'. updateSingleUBO mgr ss lightList frameNum = Some ss'
      \<and> uPointLightIndex ss' \<noteq> None \<and> uPointLightCount ss' = Some cnt'
      \<and> cnt' \<le> max 0 cnt"
proof -
  let ?old = "min (getMaxLights mgr) cnt"
  have "\<forall>i\<in>set [0..<nat ?old]. i < length lightList" using assms(3) by auto
  from revalidate_in_bounds[OF this, of mgr "getLightIndexMap mgr frameNum" "intArray arr" 0]
  obtain arr' newCount' where
    r: "revalidate mgr (getLightIndexMap mgr frameNum) lightList [0..<nat ?old] (intArray arr, 0)
          = Some (arr', newCount')"
    and n: "newCount' \<le> nat ?old"
    by auto
  have "updateSingleUBO mgr ss lightList frameNum =
      Some (ss\<lparr>uPointLightIndex := Some (arr\<lparr>intArray := arr'\<rparr>), uPointLightCount := Some (int newCount')\<rparr>)"
    using assms(1,2) r by (simp add: updateSingleUBO_def Let_def)
  moreover have "int newCount' \<le> max 0 cnt" using n by auto
  ultimately show ?thesis by simp
qed

lemma cacheInv_same:
  assumes "cacheInv ext L mgr"
    and "mStateSetCache mgr' = mStateSetCache mgr" and "heapStateSets mgr' = heapStateSets mgr"
    and "nextStateSet mgr' = nextStateSet mgr" and "mLightingMethod mgr' = mLightingMethod mgr"
  shows "cacheInv ext L mgr'"
  using assms by (simp add: cacheInv_def)

lemma cacheInv_empty:
  "mLightingMethod mgr = SingleUBO \<Longrightarrow> mStateSetCache mgr = (fmempty, fmempty) \<Longrightarrow> cacheInv ext L mgr"
  by (simp add: cacheInv_def at2_def)

lemma cacheInv_update:
  assumes "cacheInv ext L mgr"
  shows "cacheInv ext L (update mgr frameNum)"
proof -
  have c: "\<And>p h a. fmlookup (at2 (mStateSetCache (update mgr frameNum)) p) h = Some a \<Longrightarrow>
      fmlookup (at2 (mStateSetCache mgr) p) h = Some a"
    by (auto simp: update_def Let_def at2_def cleanupCache_def setLightIndexMap_def split: if_splits)
  have k: "heapStateSets (update mgr frameNum) = heapStateSets mgr"
    "nextStateSet (update mgr frameNum) = nextStateSet mgr"
    "mLightingMethod (update mgr frameNum) = mLightingMethod mgr"
    by (simp_all add: update_def Let_def setLightIndexMap_def)
  show ?thesis
    unfolding cacheInv_def k
  proof (rule conjI, goal_cases)
    case 1
    show ?case using assms by (simp add: cacheInv_def)
  next
    case 2
    show ?case
    proof (intro allI impI)
    fix p h a assume "fmlookup (at2 (mStateSetCache (update mgr frameNum)) p) h = Some a"
    then have "fmlookup (at2 (mStateSetCache mgr) p) h = Some a" by (rule c)
    then show "a < nextStateSet mgr \<and> uPointLightIndex (heapStateSets mgr a) \<noteq> None \<and>
       (\<exists>ids cnt. ids \<in> L \<and> lightListHash ext ids = h \<and>
          uPointLightCount (heapStateSets mgr a) = Some cnt \<and> cnt \<le> int (length ids))"
      using assms unfolding cacheInv_def by blast
    qed
  qed
qed

lemma cacheInv_addLight:
  assumes "cacheInv ext L mgr"
  shows "cacheInv ext L (addLight getTrans mgr lightSource worldMat frameNum)"
  by (rule cacheInv_same[OF assms]) (simp_all add: addLight_def Let_def)

lemma cacheInv_updateSettings:
  assumes "cacheInv ext L mgr"
  shows "cacheInv ext L (updateSettings st mgr)"
  by (rule cacheInv_same[OF assms]) (simp_all add: updateSettings_def Let_def)

text \<open>A call of \<open>getLightsInViewSpace\<close> changes the light sources and the lists kept for the
  cameras, and nothing else.\<close>

lemma getLightsInViewSpace_shape:
  "\<exists>heap views. snd (getLightsInViewSpace ext mgr camera viewMatrix frameNum)
      = mgr\<lparr>heapLights := heap, mLightsInViewSpace := views\<rparr>"
proof (cases "fmlookup (mLightsInViewSpace mgr) (camAddr camera)")
  case None
  obtain heap out where c: "collectLights ext mgr (isReflectionCamera camera) viewMatrix frameNum
      (mLights mgr) (heapLights mgr, []) = (heap, out)"
    by (cases "collectLights ext mgr (isReflectionCamera camera) viewMatrix frameNum
      (mLights mgr) (heapLights mgr, [])") simp
  show ?thesis
    by (rule exI[of _ heap],
        rule exI[of _ "fmupd (camAddr camera) (truncateToCapacity ext (mgr\<lparr>heapLights := heap\<rparr>) out)
                         (mLightsInViewSpace mgr)"])
       (simp add: getLightsInViewSpace_def lookupOrCollect_def None c Let_def)
next
  case (Some l)
  show ?thesis
    by (rule exI[of _ "heapLights mgr"],
        rule exI[of _ "fmupd (camAddr camera) (truncateToCapacity ext mgr l) (mLightsInViewSpace mgr)"])
       (simp add: getLightsInViewSpace_def lookupOrCollect_def Some Let_def)
qed

lemma cacheInv_getLightsInViewSpace:
  assumes "cacheInv ext L mgr"
  shows "cacheInv ext L (snd (getLightsInViewSpace ext mgr camera viewMatrix frameNum))"
proof -
  from getLightsInViewSpace_shape[of ext mgr camera viewMatrix frameNum]
  obtain heap views where m: "snd (getLightsInViewSpace ext mgr camera viewMatrix frameNum)
      = mgr\<lparr>heapLights := heap, mLightsInViewSpace := views\<rparr>"
    by blast
  show ?thesis
    unfolding m by (rule cacheInv_same[OF assms]) simp_all
qed

text \<open>The cull callback and the state attribute of the manager change the light buffers, and
  nothing else.\<close>

lemma setLightBuffer_shape: "setLightBuffer mgr f b = mgr\<lparr>mLightBuffers := upd2 (mLightBuffers mgr) (f mod 2) b\<rparr>"
  by (simp add: setLightBuffer_def)

lemma updateGPUPointLight_shape:
  assumes "updateGPUPointLight ext mgr index ls frameNum vm = Some mgr'"
  shows "\<exists>bufs. mgr' = mgr\<lparr>mLightBuffers := bufs\<rparr>"
proof -
  from assms obtain b where "mgr' = setLightBuffer mgr frameNum b"
    by (auto simp: updateGPUPointLight_def Let_def split: bind_splits)
  then show ?thesis unfolding setLightBuffer_shape ..
qed

lemma LightManagerCullCallback_shape:
  assumes "LightManagerCullCallback ext mgr lastFrameNumber traversalNum = Some (mgr', lastFrameNumber')"
  shows "\<exists>bufs. mgr' = mgr\<lparr>mLightBuffers := bufs\<rparr>"
proof -
  from assms have "mgr' = mgr \<or> (\<exists>b. mgr' = setLightBuffer mgr traversalNum b)"
    by (auto simp: LightManagerCullCallback_def Let_def split: if_splits option.splits bind_splits)
  then show ?thesis
  proof
    assume "mgr' = mgr"
    then have "mgr' = mgr\<lparr>mLightBuffers := mLightBuffers mgr\<rparr>" by simp
    then show ?thesis ..
  next
    assume "\<exists>b. mgr' = setLightBuffer mgr traversalNum b"
    then obtain b where "mgr' = setLightBuffer mgr traversalNum b" ..
    then show ?thesis unfolding setLightBuffer_shape ..
  qed
qed

lemma initSharedLayout_shape:
  assumes "initSharedLayout mgr q = Some mgr'"
  shows "\<exists>bufs. mgr' = mgr\<lparr>mLightBuffers := bufs\<rparr>"
proof -
  from assms obtain b0 b1 where "mgr' = setLightBuffer (setLightBuffer mgr 0 b0) 1 b1"
    by (auto simp: initSharedLayout_def split: bind_splits)
  then have "mgr' = mgr\<lparr>mLightBuffers := upd2 (upd2 (mLightBuffers mgr) 0 b0) 1 b1\<rparr>"
    by (simp add: setLightBuffer_def)
  then show ?thesis ..
qed

lemma LightManagerStateAttribute_apply_shape:
  assumes "LightManagerStateAttribute_apply ext mgr mInitLayout activeUniformBlocks q frameNumber viewMatrix
             = Some (mgr', mInitLayout')"
  shows "\<exists>bufs. mgr' = mgr\<lparr>mLightBuffers := bufs\<rparr>"
proof (cases "\<not> mInitLayout \<and> activeUniformBlocks > 0")
  case True
  with assms obtain m1 b where i: "initSharedLayout mgr q = Some m1"
    and m': "mgr' = setLightBuffer m1 frameNumber b"
    by (auto simp: LightManagerStateAttribute_apply_def split: bind_splits)
  from initSharedLayout_shape[OF i] obtain bufs where "m1 = mgr\<lparr>mLightBuffers := bufs\<rparr>" ..
  then have "mgr' = mgr\<lparr>mLightBuffers := upd2 bufs (frameNumber mod 2) b\<rparr>"
    by (simp add: m' setLightBuffer_def)
  then show ?thesis ..
next
  case False
  with assms obtain b where "mgr' = setLightBuffer mgr frameNumber b"
    by (auto simp: LightManagerStateAttribute_apply_def split: bind_splits)
  then show ?thesis unfolding setLightBuffer_shape ..
qed

lemma cacheInv_buffers:
  assumes "cacheInv ext L mgr"
  shows "cacheInv ext L (mgr\<lparr>mLightBuffers := bufs\<rparr>)"
  by (rule cacheInv_same[OF assms]) simp_all

lemma updateMaxLights_clears:
  assumes "getLightingMethod mgr \<noteq> FFP"
    and "updateMaxLights setting lowerLimit upperLimit mgr = Some mgr'"
  shows "mLightingMethod mgr' = mLightingMethod mgr" "mStateSetCache mgr' = (fmempty, fmempty)"
proof -
  define m1 where "m1 = setMaxLights mgr (clamp setting lowerLimit upperLimit)"
  define cached where "cached = fmran (at2 (mStateSetCache m1) 0) |\<union>| fmran (at2 (mStateSetCache m1) 1)"
  define adjust where "adjust = (if getLightingMethod m1 = PerObjectUniform
                      then resizeAttribute (getMaxLights m1)
                      else shrinkStateSet (getMaxLights m1))"
  define hs where "hs = (\<lambda>a. if a |\<in>| cached then the (adjust (heapStateSets m1 a))
                                else heapStateSets m1 a)"
  define ok where "ok = fBall cached (\<lambda>a. adjust (heapStateSets m1 a) \<noteq> None)"
  have "updateMaxLights setting lowerLimit upperLimit mgr =
      (if ok then Some (m1\<lparr>heapStateSets := hs, mStateSetCache := (fmempty, fmempty)\<rparr>) else None)"
    using assms(1) unfolding updateMaxLights_def Let_def ok_def hs_def adjust_def cached_def m1_def
    by (simp only: if_False)
  with assms(2) have "mgr' = m1\<lparr>heapStateSets := hs, mStateSetCache := (fmempty, fmempty)\<rparr>"
    by (cases ok) simp_all
  then show "mLightingMethod mgr' = mLightingMethod mgr" "mStateSetCache mgr' = (fmempty, fmempty)"
    by (simp_all add: m1_def setMaxLights_def)
qed

lemma cacheInv_updateMaxLights:
  assumes "cacheInv ext L mgr"
    and "updateMaxLights setting lowerLimit upperLimit mgr = Some mgr'"
  shows "cacheInv ext L mgr'"
proof -
  have m: "mLightingMethod mgr = SingleUBO" using assms(1) by (simp add: cacheInv_def)
  then have "getLightingMethod mgr \<noteq> FFP" by (simp add: getLightingMethod_def)
  from updateMaxLights_clears[OF this assms(2)] m show ?thesis by (simp add: cacheInv_empty)
qed

text \<open>Under the invariant, with hashes that tell the sequences of \<open>L\<close> apart, the state
  set found for a list has a count of at most the length of the list.\<close>

lemma cacheInv_hit:
  assumes inv: "cacheInv ext L mgr"
    and inj: "inj_on (lightListHash ext) L"
    and ids: "ids \<in> L"
    and hit: "fmlookup (at2 (mStateSetCache mgr) p) (lightListHash ext ids) = Some found"
  shows "\<exists>arr cnt. uPointLightIndex (heapStateSets mgr found) = Some arr
      \<and> uPointLightCount (heapStateSets mgr found) = Some cnt \<and> cnt \<le> int (length ids)"
proof -
  from inv hit obtain ids' cnt where a: "uPointLightIndex (heapStateSets mgr found) \<noteq> None"
    and i: "ids' \<in> L" "lightListHash ext ids' = lightListHash ext ids"
    and c: "uPointLightCount (heapStateSets mgr found) = Some cnt" "cnt \<le> int (length ids')"
    unfolding cacheInv_def by blast
  from inj i ids have "ids' = ids" by (simp add: inj_on_def)
  with a c show ?thesis by auto
qed

lemma getLightListStateSet_on_hit:
  assumes "assignLights ext frameNum viewMatrix lightList (0, mgr) = Some (hash, m1)"
    and "fmlookup (at2 (mStateSetCache m1) (frameNum mod 2)) hash = Some found"
  shows "getLightListStateSet ext mgr lightList frameNum viewMatrix =
     (case generatorUpdate m1 (heapStateSets m1 found) lightList frameNum of
        None \<Rightarrow> None
      | Some stateset \<Rightarrow> Some (found, m1\<lparr>heapStateSets := (heapStateSets m1)(found := stateset)\<rparr>))"
  using assms by (simp add: getLightListStateSet_def Let_def)

lemma getLightListStateSet_on_miss:
  assumes "assignLights ext frameNum viewMatrix lightList (0, mgr) = Some (hash, m1)"
    and "fmlookup (at2 (mStateSetCache m1) (frameNum mod 2)) hash = None"
  shows "getLightListStateSet ext mgr lightList frameNum viewMatrix =
     (case generate m1 lightList frameNum of
        None \<Rightarrow> None
      | Some (stateset, m2) \<Rightarrow>
          Some (nextStateSet m2,
                m2\<lparr>heapStateSets := (heapStateSets m2)(nextStateSet m2 := stateset),
                    nextStateSet := nextStateSet m2 + 1,
                    mStateSetCache := upd2 (mStateSetCache m2) (frameNum mod 2)
                       (fmupd hash (nextStateSet m2) (at2 (mStateSetCache m2) (frameNum mod 2)))\<rparr>))"
  using assms by (simp add: getLightListStateSet_def Let_def split: option.splits)

lemma cacheInv_getLightListStateSet:
  assumes inv: "cacheInv ext L mgr"
    and inj: "inj_on (lightListHash ext) L"
    and ids: "map (lightId mgr) lightList \<in> L"
    and call: "getLightListStateSet ext mgr lightList frameNum viewMatrix = Some (s, mgr')"
  shows "cacheInv ext L mgr'"
proof -
  from call obtain hash m1 where
    a: "assignLights ext frameNum viewMatrix lightList (0, mgr) = Some (hash, m1)"
    by (auto simp: getLightListStateSet_def split: option.splits)
  from assignLights_result[OF a] have h: "hash = lightListHash ext (map (lightId mgr) lightList)"
    and c1: "mStateSetCache m1 = mStateSetCache mgr" and t1: "mLightingMethod m1 = mLightingMethod mgr"
    by (simp_all add: lightListHash_def)
  note s1 = assignLights_statesets[OF a]
  have inv1: "cacheInv ext L m1"
    by (rule cacheInv_same[OF inv c1 s1(1) s1(2) t1])
  have tier: "mLightingMethod m1 = SingleUBO" using inv1 by (simp add: cacheInv_def)
  have old: "\<And>p h' a. fmlookup (at2 (mStateSetCache m1) p) h' = Some a \<Longrightarrow>
      a < nextStateSet m1 \<and> uPointLightIndex (heapStateSets m1 a) \<noteq> None \<and>
      (\<exists>ids cnt. ids \<in> L \<and> lightListHash ext ids = h' \<and>
          uPointLightCount (heapStateSets m1 a) = Some cnt \<and> cnt \<le> int (length ids))"
    using inv1 unfolding cacheInv_def by blast
  show ?thesis
  proof (cases "fmlookup (at2 (mStateSetCache m1) (frameNum mod 2)) hash")
    case (Some found)
    from cacheInv_hit[OF inv1 inj ids Some[unfolded h]] obtain arr cnt where
      f: "uPointLightIndex (heapStateSets m1 found) = Some arr"
        "uPointLightCount (heapStateSets m1 found) = Some cnt" "cnt \<le> int (length lightList)"
      by auto
    have b: "min (getMaxLights m1) cnt \<le> int (length lightList)" using f(3) by simp
    from updateSingleUBO_in_bounds[OF f(1,2) b, of frameNum]
    obtain ss' cnt' where u: "updateSingleUBO m1 (heapStateSets m1 found) lightList frameNum = Some ss'"
      and ss': "uPointLightIndex ss' \<noteq> None" "uPointLightCount ss' = Some cnt'" "cnt' \<le> max 0 cnt"
      by blast
    have g: "generatorUpdate m1 (heapStateSets m1 found) lightList frameNum = Some ss'"
      using u tier by (simp add: generatorUpdate_def getLightingMethod_def)
    have m: "mgr' = m1\<lparr>heapStateSets := (heapStateSets m1)(found := ss')\<rparr>"
      using call unfolding getLightListStateSet_on_hit[OF a Some] g by auto
    have tier': "mLightingMethod mgr' = SingleUBO" using tier by (simp add: m)
    have "\<forall>p h' a. fmlookup (at2 (mStateSetCache mgr') p) h' = Some a \<longrightarrow>
         a < nextStateSet mgr' \<and> uPointLightIndex (heapStateSets mgr' a) \<noteq> None \<and>
         (\<exists>ids cnt. ids \<in> L \<and> lightListHash ext ids = h' \<and>
            uPointLightCount (heapStateSets mgr' a) = Some cnt \<and> cnt \<le> int (length ids))"
    proof (intro allI impI)
      fix p h' a assume "fmlookup (at2 (mStateSetCache mgr') p) h' = Some a"
      then have l1: "fmlookup (at2 (mStateSetCache m1) p) h' = Some a" by (simp add: m)
      from old[OF l1] obtain ids' c where o: "a < nextStateSet m1"
        "uPointLightIndex (heapStateSets m1 a) \<noteq> None"
        "ids' \<in> L" "lightListHash ext ids' = h'" "uPointLightCount (heapStateSets m1 a) = Some c"
        "c \<le> int (length ids')"
        by blast
      show "a < nextStateSet mgr' \<and> uPointLightIndex (heapStateSets mgr' a) \<noteq> None \<and>
         (\<exists>ids cnt. ids \<in> L \<and> lightListHash ext ids = h' \<and>
            uPointLightCount (heapStateSets mgr' a) = Some cnt \<and> cnt \<le> int (length ids))"
      proof (cases "a = found")
        case True
        with o(5) f(2) have "c = cnt" by simp
        with ss'(3) o(6) have le: "cnt' \<le> int (length ids')" by simp
        have 1: "a < nextStateSet mgr'" using o(1) by (simp add: m)
        have 2: "uPointLightIndex (heapStateSets mgr' a) \<noteq> None" using ss'(1) True by (simp add: m)
        have 3: "uPointLightCount (heapStateSets mgr' a) = Some cnt'" using ss'(2) True by (simp add: m)
        from 1 2 3 le o(3,4) show ?thesis by blast
      next
        case False
        have 1: "a < nextStateSet mgr'" using o(1) by (simp add: m)
        have 2: "uPointLightIndex (heapStateSets mgr' a) \<noteq> None" using o(2) False by (simp add: m)
        have 3: "uPointLightCount (heapStateSets mgr' a) = Some c" using o(5) False by (simp add: m)
        from 1 2 3 o(3,4,6) show ?thesis by blast
      qed
    qed
    with tier' show ?thesis unfolding cacheInv_def by (rule conjI)
  next
    case None
    from call obtain ss m2 where g: "generate m1 lightList frameNum = Some (ss, m2)"
      unfolding getLightListStateSet_on_miss[OF a None] by (auto split: option.splits)
    have m: "mgr' = m2\<lparr>heapStateSets := (heapStateSets m2)(nextStateSet m2 := ss),
                        nextStateSet := nextStateSet m2 + 1,
                        mStateSetCache := upd2 (mStateSetCache m2) (frameNum mod 2)
                           (fmupd hash (nextStateSet m2) (at2 (mStateSetCache m2) (frameNum mod 2)))\<rparr>"
      using call unfolding getLightListStateSet_on_miss[OF a None] g by auto
    from g tier have g': "generateSingleUBO m1 lightList frameNum = Some (ss, m2)"
      by (simp add: generate_def getLightingMethod_def)
    note r = generateSingleUBO_result[OF g']
    have tier': "mLightingMethod mgr' = SingleUBO" using tier r(6) by (simp add: m)
    have "\<forall>p h' a. fmlookup (at2 (mStateSetCache mgr') p) h' = Some a \<longrightarrow>
         a < nextStateSet mgr' \<and> uPointLightIndex (heapStateSets mgr' a) \<noteq> None \<and>
         (\<exists>ids cnt. ids \<in> L \<and> lightListHash ext ids = h' \<and>
            uPointLightCount (heapStateSets mgr' a) = Some cnt \<and> cnt \<le> int (length ids))"
    proof (intro allI impI)
      fix p h' a assume l: "fmlookup (at2 (mStateSetCache mgr') p) h' = Some a"
      show "a < nextStateSet mgr' \<and> uPointLightIndex (heapStateSets mgr' a) \<noteq> None \<and>
         (\<exists>ids cnt. ids \<in> L \<and> lightListHash ext ids = h' \<and>
            uPointLightCount (heapStateSets mgr' a) = Some cnt \<and> cnt \<le> int (length ids))"
      proof (cases "fmlookup (at2 (mStateSetCache m1) p) h' = Some a")
        case True
        from old[OF True] obtain ids' c where o: "a < nextStateSet m1"
          "uPointLightIndex (heapStateSets m1 a) \<noteq> None"
          "ids' \<in> L" "lightListHash ext ids' = h'" "uPointLightCount (heapStateSets m1 a) = Some c"
          "c \<le> int (length ids')"
          by blast
        from o(1) have ne: "a \<noteq> nextStateSet m2" using r(5) by simp
        have 1: "a < nextStateSet mgr'" using o(1) r(5) by (simp add: m)
        have 2: "uPointLightIndex (heapStateSets mgr' a) \<noteq> None" using o(2) ne r(4) by (simp add: m)
        have 3: "uPointLightCount (heapStateSets mgr' a) = Some c" using o(5) ne r(4) by (simp add: m)
        from 1 2 3 o(3,4,6) show ?thesis by blast
      next
        case False
        have "fmlookup (at2 (mStateSetCache mgr') p) h' =
            (if (p = 0) = (frameNum mod 2 = 0) \<and> h' = hash then Some (nextStateSet m2)
             else fmlookup (at2 (mStateSetCache m1) p) h')"
          by (simp add: m r(3) at2_def upd2_def)
        with l False have new: "a = nextStateSet m2" "h' = hash"
          by (simp_all split: if_splits)
        have 1: "a < nextStateSet mgr'" by (simp add: m new)
        have 2: "uPointLightIndex (heapStateSets mgr' a) \<noteq> None" using r(2) by (simp add: m new)
        have 3: "uPointLightCount (heapStateSets mgr' a) = Some (int (length (map (lightId mgr) lightList)))"
          using r(1) by (simp add: m new)
        have 4: "lightListHash ext (map (lightId mgr) lightList) = h'" using h new(2) by simp
        from 1 2 3 4 ids show ?thesis by blast
      qed
    qed
    with tier' show ?thesis unfolding cacheInv_def by (rule conjI)
  qed
qed

lemma reachable_cacheInv:
  assumes "reachable ext L mgr" and "inj_on (lightListHash ext) L"
  shows "cacheInv ext L mgr"
  using assms(1)
proof (induction rule: reachable.induct)
  case (constructed mgr)
  then show ?case by (rule cacheInv_empty)
next
  case (updated mgr frameNum)
  from updated.IH show ?case by (rule cacheInv_update)
next
  case (lightAdded mgr getTrans lightSource worldMat frameNum)
  from lightAdded.IH show ?case by (rule cacheInv_addLight)
next
  case (viewed mgr camera viewMatrix frameNum)
  from viewed.IH show ?case by (rule cacheInv_getLightsInViewSpace)
next
  case (requested mgr lightList frameNum viewMatrix s mgr')
  from requested.IH assms(2) requested.hyps(2,3) show ?case by (rule cacheInv_getLightListStateSet)
next
  case (settingsChanged mgr st)
  from settingsChanged.IH show ?case by (rule cacheInv_updateSettings)
next
  case (maxLightsChanged mgr setting lowerLimit upperLimit mgr')
  from maxLightsChanged.IH maxLightsChanged.hyps(2) show ?case by (rule cacheInv_updateMaxLights)
next
  case (maxLightsSet mgr v)
  show ?case by (rule cacheInv_same[OF maxLightsSet.IH]) (simp_all add: setMaxLights_def)
next
  case (startLightSet mgr start)
  show ?case by (rule cacheInv_same[OF startLightSet.IH]) (simp_all add: setStartLight_def)
next
  case (lightingMaskSet mgr m)
  show ?case by (rule cacheInv_same[OF lightingMaskSet.IH]) (simp_all add: setLightingMask_def)
next
  case (sunlightSet mgr sun)
  show ?case by (rule cacheInv_same[OF sunlightSet.IH]) (simp_all add: setSunlight_def)
next
  case (pointLightWritten mgr index lightSource frameNum viewMatrix mgr')
  from updateGPUPointLight_shape[OF pointLightWritten.hyps(2)] pointLightWritten.IH
  show ?case by (auto intro: cacheInv_buffers)
next
  case (sunRecorded mgr lastFrameNumber traversalNum mgr' lastFrameNumber')
  from LightManagerCullCallback_shape[OF sunRecorded.hyps(2)] sunRecorded.IH
  show ?case by (auto intro: cacheInv_buffers)
next
  case (attributeApplied mgr mInitLayout activeUniformBlocks q frameNumber viewMatrix mgr' mInitLayout')
  from LightManagerStateAttribute_apply_shape[OF attributeApplied.hyps(2)] attributeApplied.IH
  show ?case by (auto intro: cacheInv_buffers)
next
  case (lightSourcesChanged mgr heap)
  show ?case by (rule cacheInv_same[OF lightSourcesChanged.IH]) simp_all
qed

subsection \<open>Writing to a buffer that has the packed layout\<close>

lemma Offsets_init_packed: "Offsets_init 0 16 32 0 = Offsets_default"
  by (simp add: Offsets_init_def Offsets_default_def to_size_t_def to_int_def Let_def fun_eq_iff
      split: LayoutOffset.splits)

lemma packedBuffer_offset:
  "packedBuffer b \<Longrightarrow> getOffset b index slot = 12 * index +
        (case slot of Diffuse \<Rightarrow> 0 | Ambient \<Rightarrow> 1 | Specular \<Rightarrow> 2 | DiffuseSign \<Rightarrow> 3
         | Position \<Rightarrow> 4 | AttenuationRadius \<Rightarrow> 8)"
  by (simp add: packedBuffer_def getOffset_def Offsets_get_def Offsets_default_def)

lemma packedBuffer_memcpy:
  assumes "packedBuffer b" and "0 \<le> off" and "off + int (length q) \<le> 24"
  shows "\<exists>d. memcpy_to (mData b) off q = Some d \<and> packedBuffer (b\<lparr>mData := d\<rparr>)"
proof -
  from memcpy_to_Some[of off q "mData b"] assms obtain d where
    d: "memcpy_to (mData b) off q = Some d"
    by (auto simp: packedBuffer_def)
  from memcpy_to_length[OF d] assms(1) have "packedBuffer (b\<lparr>mData := d\<rparr>)"
    by (simp add: packedBuffer_def)
  with d show ?thesis by blast
qed

lemma setDiffuse_packed:
  assumes "packedBuffer b" and "index = 0 \<or> index = 1"
  shows "\<exists>b'. setDiffuse ext b index c = Some b' \<and> packedBuffer b'"
proof -
  let ?p = "asRGBA ext b (if redBelowZero c then colour_scale c (Finite (- 1)) else c)"
  let ?s = "if redBelowZero c then - 1 else 1 :: cell"
  from packedBuffer_memcpy[OF assms(1), of "getOffset b index Diffuse" "[?p]"] assms
  obtain d1 where d1: "memcpy_to (mData b) (getOffset b index Diffuse) [?p] = Some d1"
    "packedBuffer (b\<lparr>mData := d1\<rparr>)"
    by (auto simp: packedBuffer_offset)
  from packedBuffer_memcpy[OF d1(2), of "getOffset b index DiffuseSign" "[?s]"] assms
  obtain d2 where d2: "memcpy_to d1 (getOffset b index DiffuseSign) [?s] = Some d2"
    "packedBuffer (b\<lparr>mData := d2\<rparr>)"
    by (auto simp: packedBuffer_offset)
  show ?thesis using d1 d2 by (simp add: setDiffuse_def Let_def)
qed

lemma setAmbient_packed:
  assumes "packedBuffer b" and "index = 0 \<or> index = 1"
  shows "\<exists>b'. setAmbient ext b index v = Some b' \<and> packedBuffer b'"
  using packedBuffer_memcpy[OF assms(1), of "getOffset b index Ambient" "[asRGBA ext b (Rgba v)]"] assms
  by (auto simp: packedBuffer_offset setAmbient_def)

lemma setSpecular_packed:
  assumes "packedBuffer b" and "index = 0 \<or> index = 1"
  shows "\<exists>b'. setSpecular ext b index v = Some b' \<and> packedBuffer b'"
  using packedBuffer_memcpy[OF assms(1), of "getOffset b index Specular" "[asRGBA ext b (Rgba v)]"] assms
  by (auto simp: packedBuffer_offset setSpecular_def)

lemma setPosition_packed:
  assumes "packedBuffer b" and "index = 0 \<or> index = 1"
  shows "\<exists>b'. setPosition ext b index v = Some b' \<and> packedBuffer b'"
  using packedBuffer_memcpy[OF assms(1), of "getOffset b index Position" "vec4_cells ext v"] assms
  by (auto simp: packedBuffer_offset setPosition_def vec4_cells_def)

lemma setAttenuationRadius_packed:
  assumes "packedBuffer b" and "index = 0 \<or> index = 1"
  shows "\<exists>b'. setAttenuationRadius ext b index v = Some b' \<and> packedBuffer b'"
  using packedBuffer_memcpy[OF assms(1), of "getOffset b index AttenuationRadius" "vec4_cells ext v"] assms
  by (auto simp: packedBuffer_offset setAttenuationRadius_def vec4_cells_def)

lemma uploadCachedSunPos_packed:
  assumes "packedBuffer b"
  shows "\<exists>b'. uploadCachedSunPos ext b vm = Some b' \<and> packedBuffer b'"
  using packedBuffer_memcpy[OF assms(1), of "getOffset b 0 Position"
      "vec4_cells ext (vecMult ext (mCachedSunPos b) vm)"] assms
  by (auto simp: packedBuffer_offset uploadCachedSunPos_def vec4_cells_def Let_def)

lemma setCachedSunPos_packed: "packedBuffer b \<Longrightarrow> packedBuffer (setCachedSunPos b pos)"
  by (simp add: packedBuffer_def setCachedSunPos_def)

lemma updateGPUPointLight_packed:
  assumes "packedBuffer (getLightBuffer mgr frameNum)" and "index = 0 \<or> index = 1"
  shows "\<exists>b. updateGPUPointLight ext mgr index ls frameNum vm = Some (setLightBuffer mgr frameNum b)
           \<and> packedBuffer b"
proof -
  let ?light = "getLight (heapLights mgr ls) frameNum"
  from setDiffuse_packed[OF assms] obtain b1 where
    s1: "setDiffuse ext (getLightBuffer mgr frameNum) index (diffuse ?light) = Some b1" "packedBuffer b1"
    by blast
  from setAmbient_packed[OF s1(2) assms(2)] obtain b2 where
    s2: "setAmbient ext b1 index (ambient ?light) = Some b2" "packedBuffer b2"
    by blast
  from setAttenuationRadius_packed[OF s2(2) assms(2)] obtain b3 where
    s3: "setAttenuationRadius ext b2 index
               \<lparr>v4x = constantAttenuation ?light, v4y = linearAttenuation ?light,
                v4z = quadraticAttenuation ?light, v4w = mRadius (heapLights mgr ls)\<rparr> = Some b3"
      "packedBuffer b3"
    by blast
  from setPosition_packed[OF s3(2) assms(2)] obtain b4 where
    s4: "setPosition ext b3 index (vecMult ext (position ?light) vm) = Some b4" "packedBuffer b4"
    by blast
  show ?thesis
    by (rule exI[of _ b4]) (simp add: updateGPUPointLight_def Let_def s1 s2 s3 s4)
qed

lemma LightManagerCullCallback_packed:
  assumes "getLightingMethod mgr = SingleUBO" and "getSunlight mgr = Some sun"
    and "lastFrameNumber \<noteq> traversalNum" and "packedBuffer (getLightBuffer mgr traversalNum)"
  shows "\<exists>b. LightManagerCullCallback ext mgr lastFrameNumber traversalNum
             = Some (setLightBuffer mgr traversalNum b, traversalNum) \<and> packedBuffer b"
proof -
  let ?buf = "setCachedSunPos (getLightBuffer mgr traversalNum) (position sun)"
  have p: "packedBuffer ?buf" using assms(4) by (rule setCachedSunPos_packed)
  from setAmbient_packed[OF p, of 0] obtain b1 where
    s1: "setAmbient ext ?buf 0 (ambient sun) = Some b1" "packedBuffer b1" by blast
  from setDiffuse_packed[OF s1(2), of 0] obtain b2 where
    s2: "setDiffuse ext b1 0 (diffuse sun) = Some b2" "packedBuffer b2" by blast
  from setSpecular_packed[OF s2(2), of 0] obtain b3 where
    s3: "setSpecular ext b2 0 (specular sun) = Some b3" "packedBuffer b3" by blast
  show ?thesis
    by (rule exI[of _ b3]) (simp add: LightManagerCullCallback_def Let_def assms(1,2,3) s1 s2 s3)
qed

lemma configureLayout_packed:
  assumes "packedBuffer b"
  shows "\<exists>b'. configureLayout b 0 16 32 96 0 = Some b' \<and> packedBuffer b'"
proof -
  let ?dst = "resizeArray (mData b) (nat (to_unsigned 96))"
  have idx: "map int [0..<nat (mCount b)] = [0, 1]"
    using assms by (simp add: packedBuffer_def upt_rec)
  have l: "length ?dst = 96" by (simp add: length_resizeArray to_unsigned_def)
  have "\<exists>d. copyRecords Offsets_default Offsets_default (mData b) [0, 1] ?dst = Some d
          \<and> length d = length ?dst"
    using assms
    by (intro copyRecords_Some)
       (auto simp: l packedBuffer_def copiedSlots_def Offsets_get_def Offsets_default_def)
  then obtain d where d: "copyRecords Offsets_default Offsets_default (mData b) [0, 1] ?dst = Some d"
    "length d = 96"
    using l by auto
  have "configureLayout b 0 16 32 96 0 = Some (b\<lparr>mData := d, mOffsets := Offsets_default\<rparr>)"
    using assms d(1) unfolding configureLayout_def Let_def Offsets_init_packed idx
    by (simp add: packedBuffer_def)
  moreover have "packedBuffer (b\<lparr>mData := d, mOffsets := Offsets_default\<rparr>)"
    using assms d(2) by (simp add: packedBuffer_def)
  ultimately show ?thesis by blast
qed

lemma LightManagerStateAttribute_apply_packed:
  assumes "packedBuffer (getLightBuffer mgr 0)" and "packedBuffer (getLightBuffer mgr 1)"
  shows "\<exists>bufs. LightManagerStateAttribute_apply ext mgr False 1 packedLayout frameNumber vm
             = Some (mgr\<lparr>mLightBuffers := bufs\<rparr>, True)
           \<and> packedBuffer (fst bufs) \<and> packedBuffer (snd bufs)"
proof -
  from configureLayout_packed[OF assms(1)] obtain b0 where
    c0: "configureLayout (getLightBuffer mgr 0) 0 16 32 96 0 = Some b0" "packedBuffer b0" by blast
  have g1: "getLightBuffer (setLightBuffer mgr 0 b0) 1 = getLightBuffer mgr 1"
    by (simp add: getLightBuffer_def setLightBuffer_def at2_def upd2_def)
  from configureLayout_packed[OF assms(2)] obtain b1 where
    c1: "configureLayout (getLightBuffer mgr 1) 0 16 32 96 0 = Some b1" "packedBuffer b1" by blast
  let ?m1 = "mgr\<lparr>mLightBuffers := (b0, b1)\<rparr>"
  have i: "initSharedLayout mgr packedLayout = Some ?m1"
    using c0(1) c1(1) g1 by (simp add: initSharedLayout_def packedLayout_def setLightBuffer_def upd2_def)
  have "packedBuffer (getLightBuffer ?m1 frameNumber)"
    using c0(2) c1(2) by (simp add: getLightBuffer_def at2_def)
  from uploadCachedSunPos_packed[OF this, of ext vm] obtain b where
    u: "uploadCachedSunPos ext (getLightBuffer ?m1 frameNumber) vm = Some b" "packedBuffer b"
    by (elim exE conjE)
  let ?bufs = "upd2 (b0, b1) (frameNumber mod 2) b"
  have a: "LightManagerStateAttribute_apply ext mgr False 1 packedLayout frameNumber vm
      = Some (mgr\<lparr>mLightBuffers := ?bufs\<rparr>, True)"
    unfolding LightManagerStateAttribute_apply_def using i u(1) by (simp add: setLightBuffer_def)
  have p: "packedBuffer (fst ?bufs)" "packedBuffer (snd ?bufs)"
    using c0(2) c1(2) u(2) by (simp_all add: upd2_def)
  show ?thesis by (rule exI[of _ ?bufs], intro conjI) (rule a p)+
qed

subsection \<open>The first request for a list of one light\<close>

lemma fillIndices_Some:
  "pointCount + length ids \<le> length indices \<Longrightarrow>
   \<exists>r. fillIndices ids (indexMap, indices, pointCount) = Some r"
proof (induction ids arbitrary: indexMap indices pointCount)
  case Nil
  then show ?case by simp
next
  case (Cons ident rest)
  then have lt: "pointCount < length indices" by simp
  let ?bufIndex = "case fmlookup indexMap ident of None \<Rightarrow> 0 | Some i \<Rightarrow> i"
  let ?indexMap' = "case fmlookup indexMap ident of None \<Rightarrow> fmupd ident 0 indexMap | Some _ \<Rightarrow> indexMap"
  have "\<exists>r. fillIndices rest (?indexMap', indices[pointCount := ?bufIndex], pointCount + 1) = Some r"
    using Cons.prems by (intro Cons.IH) simp
  with lt show ?case by (simp add: Let_def)
qed

lemma map_size_fmempty: "map_size fmempty = 0"
  by (simp add: map_size_def)

lemma assignLights_first:
  assumes tier: "getLightingMethod mgr = SingleUBO"
    and packed: "packedBuffer (getLightBuffer mgr frameNum)"
    and imap: "getLightIndexMap mgr frameNum = fmempty"
  shows "\<exists>b. assignLights ext frameNum vm [l] (0, mgr) =
           Some (lightListHash ext [lightId mgr l],
                 mgr\<lparr>mLightBuffers := upd2 (mLightBuffers mgr) (frameNum mod 2) b,
                      mLightIndexMaps := upd2 (mLightIndexMaps mgr) (frameNum mod 2)
                                           (fmupd (lightId mgr l) 1 fmempty)\<rparr>)
         \<and> packedBuffer b"
proof -
  from updateGPUPointLight_packed[OF packed, of 1 ext "mLightSource l" vm] obtain b where
    u: "updateGPUPointLight ext mgr 1 (mLightSource l) frameNum vm = Some (setLightBuffer mgr frameNum b)"
    and p: "packedBuffer b"
    by auto
  have i: "getLightIndexMap (setLightBuffer mgr frameNum b) frameNum = fmempty"
    using imap by (simp add: getLightIndexMap_def setLightBuffer_def)
  have a: "assignLights ext frameNum vm [l] (0, mgr) =
      Some (hashCombine ext 0 (lightId mgr l),
            setLightIndexMap (setLightBuffer mgr frameNum b) frameNum (fmupd (lightId mgr l) 1 fmempty))"
    using tier u by (simp add: Let_def imap i map_size_fmempty)
  show ?thesis
    unfolding a
    by (rule exI[of _ b]) (simp add: p lightListHash_def setLightIndexMap_def setLightBuffer_def)
qed

text \<open>The first request for a list of one light in a frame, with nothing cached: the light is
  written to the buffer of the frame and a new state set is cached.\<close>

lemma getLightListStateSet_first:
  assumes tier: "getLightingMethod mgr = SingleUBO"
    and packed: "packedBuffer (getLightBuffer mgr frameNum)"
    and imap: "getLightIndexMap mgr frameNum = fmempty"
    and cache: "mStateSetCache mgr = (fmempty, fmempty)"
    and maxl: "1 \<le> getMaxLights mgr"
  shows "\<exists>b maps ss. getLightListStateSet ext mgr [l] frameNum vm =
           Some (nextStateSet mgr,
                 mgr\<lparr>mLightBuffers := upd2 (mLightBuffers mgr) (frameNum mod 2) b,
                      mLightIndexMaps := maps,
                      heapStateSets := (heapStateSets mgr)(nextStateSet mgr := ss),
                      nextStateSet := nextStateSet mgr + 1,
                      mStateSetCache := upd2 (fmempty, fmempty) (frameNum mod 2)
                         (fmupd (lightListHash ext [lightId mgr l]) (nextStateSet mgr) fmempty)\<rparr>)
         \<and> packedBuffer b"
proof -
  let ?hash = "lightListHash ext [lightId mgr l]"
  from assignLights_first[OF tier packed imap, of ext vm l] obtain b where
    a: "assignLights ext frameNum vm [l] (0, mgr) =
           Some (?hash,
                 mgr\<lparr>mLightBuffers := upd2 (mLightBuffers mgr) (frameNum mod 2) b,
                      mLightIndexMaps := upd2 (mLightIndexMaps mgr) (frameNum mod 2)
                                           (fmupd (lightId mgr l) 1 fmempty)\<rparr>)"
    and p: "packedBuffer b"
    by (elim exE conjE)
  let ?m1 = "mgr\<lparr>mLightBuffers := upd2 (mLightBuffers mgr) (frameNum mod 2) b,
                  mLightIndexMaps := upd2 (mLightIndexMaps mgr) (frameNum mod 2)
                                       (fmupd (lightId mgr l) 1 fmempty)\<rparr>"
  have miss: "fmlookup (at2 (mStateSetCache ?m1) (frameNum mod 2)) ?hash = None"
    by (simp add: cache at2_def)
  have "\<exists>r. fillIndices (map (lightId ?m1) [l])
             (getLightIndexMap ?m1 frameNum, replicate (nat (getMaxLights ?m1)) 0, 0) = Some r"
    using maxl by (intro fillIndices_Some) (simp add: getMaxLights_def)
  then obtain indexMap indices pointCount where
    f: "fillIndices (map (lightId ?m1) [l])
             (getLightIndexMap ?m1 frameNum, replicate (nat (getMaxLights ?m1)) 0, 0)
          = Some (indexMap, indices, pointCount)"
    by (metis prod_cases3)
  let ?ss = "emptyStateSet\<lparr>uPointLightIndex := Some \<lparr>uniformType = IntUniform, intArray = indices\<rparr>,
                             uPointLightCount := Some (int pointCount)\<rparr>"
  have g: "generate ?m1 [l] frameNum = Some (?ss, setLightIndexMap ?m1 frameNum indexMap)"
    using tier f by (simp add: generate_def generateSingleUBO_def getLightingMethod_def)
  show ?thesis
    unfolding getLightListStateSet_on_miss[OF a miss] g
    by (rule exI[of _ b],
        rule exI[of _ "upd2 (upd2 (mLightIndexMaps mgr) (frameNum mod 2) (fmupd (lightId mgr l) 1 fmempty))
                         (frameNum mod 2) indexMap"],
        rule exI[of _ ?ss])
       (simp add: p setLightIndexMap_def cache at2_def)
qed

lemma sqrt_10000: "sqrt 10000 = 100"
  using real_sqrt_abs[of 100] by simp

text \<open>Collecting one light that lies at the end of a fade whose start is its end: the fade is
  \<open>0 / 0\<close>, the light is kept, and its diffuse colour is multiplied by a NaN.\<close>

lemma getLightsInViewSpace_at_fade_end:
  assumes "mPointLightFadeEnd mgr = 100" and "mPointLightFadeStart mgr = 100"
    and "fmlookup (mLightsInViewSpace mgr) (camAddr mainCamera) = None"
    and "mLights mgr = [registeredAt a 100]"
  shows "\<exists>views. snd (getLightsInViewSpace translationExternals mgr mainCamera
                         \<lparr>v3x = 0, v3y = 0, v3z = 0\<rparr> frameNum)
      = mgr\<lparr>heapLights := (heapLights mgr)(a := fadeDiffuse (heapLights mgr a) frameNum NaN),
             mLightsInViewSpace := views\<rparr>"
proof -
  let ?vm = "\<lparr>v3x = 0, v3y = 0, v3z = 0\<rparr> :: Vec3f"
  have f: "fadeFactor mgr 100 = NaN"
    using assms(1,2) by (simp add: fadeFactor_def float_div_def clamp_q_def one_minus_def)
  have c: "collectLights translationExternals mgr (isReflectionCamera mainCamera) ?vm frameNum
             [registeredAt a 100] (heapLights mgr, [])
      = ((heapLights mgr)(a := fadeDiffuse (heapLights mgr a) frameNum NaN),
         [lightAt a 100 (mRadius (heapLights mgr a) * mPointLightRadiusMultiplier mgr)])"
    using assms(1)
    by (simp add: Let_def isReflectionCamera_def mainCamera_def registeredAt_def lightAt_def
        translationExternals_def vec3_add_def length_v3_def length2_def sqrt_10000 f)
  have l: "lookupOrCollect translationExternals mgr mainCamera ?vm frameNum
      = ([lightAt a 100 (mRadius (heapLights mgr a) * mPointLightRadiusMultiplier mgr)],
         mgr\<lparr>heapLights := (heapLights mgr)(a := fadeDiffuse (heapLights mgr a) frameNum NaN)\<rparr>)"
    unfolding lookupOrCollect_def assms(3,4) c by simp
  show ?thesis
    unfolding getLightsInViewSpace_def l by (rule exI) (simp add: Let_def)
qed

lemma diffuse_fadeDiffuse_NaN: "diffuse (getLight (fadeDiffuse ls frameNum NaN) frameNum) = NaNs"
  by (cases "diffuse (getLight ls frameNum)")
     (simp_all add: fadeDiffuse_def Let_def getLight_setLight)

lemma map_size_single: "map_size (fmupd h a fmempty) = 1"
  by (simp add: map_size_def fcard_finsert_if)

text \<open>Claim C9. Take a manager of the tier \<open>SingleUBO\<close> in a state reached from empty caches
  through the operations of the manager (\<open>update\<close>, \<open>addLight\<close>, \<open>getLightsInViewSpace\<close> with
  any fade, a NaN included, \<open>getLightListStateSet\<close>, \<open>updateSettings\<close>, \<open>updateMaxLights\<close>,
  \<open>setMaxLights\<close>, \<open>setStartLight\<close>, \<open>setLightingMask\<close>, \<open>setSunlight\<close>, the writes of the
  cull callback and of the state attribute to the light buffers, and changes made to the light
  sources from outside), and assume that the hash tells apart the sequences of
  identifiers of the light lists requested (the set \<open>L\<close>). On a call of
  \<open>getLightListStateSet\<close> that finds its key in the cache, the \<open>PointLightCount\<close> stored in
  the cached state set, capped by \<open>getMaxLights()\<close>, is at most the length of the light list
  of the call. So the loop of the update hook reads \<open>lightList[i]\<close> inside the list only: once
  the first loop of the call has run, the hook returns and so does the call, with the cached
  state set.\<close>

theorem update_hook_in_bounds:
  assumes reach: "reachable ext L mgr"
    and inj: "inj_on (lightListHash ext) L"
    and ids: "map (lightId mgr) lightList \<in> L"
    and hit: "fmlookup (at2 (mStateSetCache mgr) (frameNum mod 2))
                (lightListHash ext (map (lightId mgr) lightList)) = Some found"
  shows "\<exists>cnt. uPointLightCount (heapStateSets mgr found) = Some cnt
      \<and> min (getMaxLights mgr) cnt \<le> int (length lightList)
      \<and> (\<forall>hash m1. assignLights ext frameNum viewMatrix lightList (0, mgr) = Some (hash, m1) \<longrightarrow>
            updateSingleUBO m1 (heapStateSets m1 found) lightList frameNum \<noteq> None
            \<and> (\<exists>mgr'. getLightListStateSet ext mgr lightList frameNum viewMatrix = Some (found, mgr')))"
proof -
  have inv: "cacheInv ext L mgr" by (rule reachable_cacheInv[OF reach inj])
  from cacheInv_hit[OF inv inj ids hit] obtain arr cnt where
    f: "uPointLightIndex (heapStateSets mgr found) = Some arr"
      "uPointLightCount (heapStateSets mgr found) = Some cnt" "cnt \<le> int (length lightList)"
    by auto
  have b: "min (getMaxLights mgr) cnt \<le> int (length lightList)" using f(3) by simp
  have tier: "mLightingMethod mgr = SingleUBO" using inv by (simp add: cacheInv_def)
  have "\<forall>hash m1. assignLights ext frameNum viewMatrix lightList (0, mgr) = Some (hash, m1) \<longrightarrow>
            updateSingleUBO m1 (heapStateSets m1 found) lightList frameNum \<noteq> None
            \<and> (\<exists>mgr'. getLightListStateSet ext mgr lightList frameNum viewMatrix = Some (found, mgr'))"
  proof (intro allI impI)
    fix hash m1 assume a: "assignLights ext frameNum viewMatrix lightList (0, mgr) = Some (hash, m1)"
    from assignLights_result[OF a] have h: "hash = lightListHash ext (map (lightId mgr) lightList)"
      and c1: "mStateSetCache m1 = mStateSetCache mgr" and t1: "mLightingMethod m1 = mLightingMethod mgr"
      by (simp_all add: lightListHash_def)
    note s1 = assignLights_statesets[OF a]
    have f1: "uPointLightIndex (heapStateSets m1 found) = Some arr"
      "uPointLightCount (heapStateSets m1 found) = Some cnt"
      using f s1 by simp_all
    have b1: "min (getMaxLights m1) cnt \<le> int (length lightList)"
      using b s1(3) by (simp add: getMaxLights_def)
    from updateSingleUBO_in_bounds[OF f1 b1, of frameNum]
    obtain ss' where u: "updateSingleUBO m1 (heapStateSets m1 found) lightList frameNum = Some ss'"
      by blast
    have g: "generatorUpdate m1 (heapStateSets m1 found) lightList frameNum = Some ss'"
      using u tier t1 by (simp add: generatorUpdate_def getLightingMethod_def)
    have l: "fmlookup (at2 (mStateSetCache m1) (frameNum mod 2)) hash = Some found"
      using hit by (simp add: h c1)
    have "getLightListStateSet ext mgr lightList frameNum viewMatrix =
        Some (found, m1\<lparr>heapStateSets := (heapStateSets m1)(found := ss')\<rparr>)"
      unfolding getLightListStateSet_on_hit[OF a l] g by simp
    with u show "updateSingleUBO m1 (heapStateSets m1 found) lightList frameNum \<noteq> None
            \<and> (\<exists>mgr'. getLightListStateSet ext mgr lightList frameNum viewMatrix = Some (found, mgr'))"
      by simp
  qed
  with f(2) b show ?thesis by blast
qed

theorem update_hook_in_bounds_witness:
  "\<exists>mgr. reachable translationExternals {[3]} mgr
     \<and> inj_on (lightListHash translationExternals) {[3]}
     \<and> map (lightId mgr) [lightAt 3 100 1] \<in> {[3]}
     \<and> fmlookup (at2 (mStateSetCache mgr) (4 mod 2))
           (lightListHash translationExternals (map (lightId mgr) [lightAt 3 100 1])) = Some 0
     \<and> diffuse (getLight (heapLights mgr 3) 4) = NaNs
     \<and> (\<exists>cnt. uPointLightCount (heapStateSets mgr 0) = Some cnt
           \<and> min (getMaxLights mgr) cnt \<le> int (length [lightAt 3 100 1]))
     \<and> (\<exists>mgr'. getLightListStateSet translationExternals mgr [lightAt 3 100 1] 4
                   \<lparr>v3x = 0, v3y = 0, v3z = 0\<rparr> = Some (0, mgr'))"
proof -
  let ?ext = translationExternals
  let ?vm = "\<lparr>v3x = 0, v3y = 0, v3z = 0\<rparr> :: Vec3f"
  let ?w = "\<lparr>v3x = 100, v3y = 0, v3z = 0\<rparr> :: Vec3f"
  let ?l = "lightAt 3 100 1"
  let ?L = "{[3]} :: int list set"
  note defs = smallManager_def freshManager_def lateFadeSettings_def updateSettings_def update_def
    addLight_def setLightBuffer_def setLightIndexMap_def getLightBuffer_def getLightIndexMap_def
    getLightingMethod_def getSunlight_def getMaxLights_def getLight_def setLight_def
    at2_def upd2_def clamp_def cleanupCache_def map_size_single Let_def registeredAt_def
    mainCamera_def
  (* Frame 2: the settings change, the frame begins, the light source 3 is registered at
    the distance 100, and the cull callback of the manager records the sun. *)
  define s1 where "s1 = updateSettings lateFadeSettings smallManager"
  define s2 where "s2 = update s1 2"
  define s3 where "s3 = addLight (\<lambda>m. m) s2 3 ?w 2"
  have p0: "packedBuffer (LightBuffer_init LittleEndian 2)"
    by (simp add: packedBuffer_def LightBuffer_init_def)
  have k3: "getLightingMethod s3 = SingleUBO" "getSunlight s3 = Some whiteLight"
    "packedBuffer (getLightBuffer s3 2)"
    using p0 by (simp_all add: s3_def s2_def s1_def defs)
  from LightManagerCullCallback_packed[OF k3(1,2) _ k3(3), of 0 ?ext] obtain b4 where
    c4: "LightManagerCullCallback ?ext s3 0 2 = Some (setLightBuffer s3 2 b4, 2)"
    and p4: "packedBuffer b4"
    by auto
  define s4 where "s4 = setLightBuffer s3 2 b4"
  (* The list of the main camera is collected: the fade of the light is a NaN. *)
  have k4: "mPointLightFadeEnd s4 = 100" "mPointLightFadeStart s4 = 100"
    "fmlookup (mLightsInViewSpace s4) (camAddr mainCamera) = None"
    "mLights s4 = [registeredAt 3 100]"
    by (simp_all add: s4_def s3_def s2_def s1_def defs)
  from getLightsInViewSpace_at_fade_end[OF k4, of 2] obtain views5 where
    v5: "snd (getLightsInViewSpace ?ext s4 mainCamera ?vm 2)
      = s4\<lparr>heapLights := (heapLights s4)(3 := fadeDiffuse (heapLights s4 3) 2 NaN),
             mLightsInViewSpace := views5\<rparr>"
    by (elim exE)
  define s5 where "s5 = s4\<lparr>heapLights := (heapLights s4)(3 := fadeDiffuse (heapLights s4 3) 2 NaN),
                            mLightsInViewSpace := views5\<rparr>"
  (* The state set for the list of that light is requested and created. *)
  have k5: "getLightingMethod s5 = SingleUBO" "packedBuffer (getLightBuffer s5 2)"
    "getLightIndexMap s5 2 = fmempty" "mStateSetCache s5 = (fmempty, fmempty)"
    "1 \<le> getMaxLights s5"
    using p4 by (simp_all add: s5_def s4_def s3_def s2_def s1_def defs)
  have n5: "nextStateSet s5 = 0" "mLightBuffers s5 = (b4, LightBuffer_init LittleEndian 2)"
    by (simp_all add: s5_def s4_def s3_def s2_def s1_def defs)
  have i5: "lightId s5 ?l = 3"
    by (simp add: lightId_def lightAt_def fadeDiffuse_def s5_def s4_def s3_def s2_def s1_def defs)
  from getLightListStateSet_first[OF k5, of ?ext ?l ?vm] obtain b6 maps6 ss6 where
    r6: "getLightListStateSet ?ext s5 [?l] 2 ?vm =
           Some (nextStateSet s5,
                 s5\<lparr>mLightBuffers := upd2 (mLightBuffers s5) (2 mod 2) b6,
                      mLightIndexMaps := maps6,
                      heapStateSets := (heapStateSets s5)(nextStateSet s5 := ss6),
                      nextStateSet := nextStateSet s5 + 1,
                      mStateSetCache := upd2 (fmempty, fmempty) (2 mod 2)
                         (fmupd (lightListHash ?ext [lightId s5 ?l]) (nextStateSet s5) fmempty)\<rparr>)"
    and p6: "packedBuffer b6"
    by (elim exE conjE)
  define s6 where "s6 = s5\<lparr>mLightBuffers := (b6, LightBuffer_init LittleEndian 2),
                            mLightIndexMaps := maps6,
                            heapStateSets := (heapStateSets s5)(0 := ss6),
                            nextStateSet := 1,
                            mStateSetCache := (fmupd (lightListHash ?ext [3]) 0 fmempty, fmempty)\<rparr>"
  have r6': "getLightListStateSet ?ext s5 [?l] 2 ?vm = Some (0, s6)"
    unfolding r6 by (simp add: s6_def n5 i5 upd2_def)
  (* The state attribute of the manager is applied: both buffers are laid out anew and the
    position of the sun is uploaded. *)
  have k6: "packedBuffer (getLightBuffer s6 0)" "packedBuffer (getLightBuffer s6 1)"
    using p6 p0 by (simp_all add: s6_def getLightBuffer_def at2_def)
  from LightManagerStateAttribute_apply_packed[OF k6, of ?ext 2 ?vm] obtain bufs7 where
    a7: "LightManagerStateAttribute_apply ?ext s6 False 1 packedLayout 2 ?vm
           = Some (s6\<lparr>mLightBuffers := bufs7\<rparr>, True)"
    and p7: "packedBuffer (fst bufs7)" "packedBuffer (snd bufs7)"
    by (elim exE conjE)
  define s7 where "s7 = s6\<lparr>mLightBuffers := bufs7\<rparr>"
  (* Frames 3 and 4 begin; in frame 4 the light source is registered again, the sun is
    recorded and the list of the main camera is collected. *)
  define s8 where "s8 = update s7 3"
  define s9 where "s9 = update s8 4"
  define s10 where "s10 = addLight (\<lambda>m. m) s9 3 ?w 4"
  have k10: "getLightingMethod s10 = SingleUBO" "getSunlight s10 = Some whiteLight"
    "packedBuffer (getLightBuffer s10 4)"
    using p7 by (simp_all add: s10_def s9_def s8_def s7_def s6_def s5_def s4_def s3_def s2_def s1_def defs)
  from LightManagerCullCallback_packed[OF k10(1,2) _ k10(3), of 2 ?ext] obtain b11 where
    c11: "LightManagerCullCallback ?ext s10 2 4 = Some (setLightBuffer s10 4 b11, 4)"
    and p11: "packedBuffer b11"
    by auto
  define s11 where "s11 = setLightBuffer s10 4 b11"
  have k11: "mPointLightFadeEnd s11 = 100" "mPointLightFadeStart s11 = 100"
    "fmlookup (mLightsInViewSpace s11) (camAddr mainCamera) = None"
    "mLights s11 = [registeredAt 3 100]"
    by (simp_all add: s11_def s10_def s9_def s8_def s7_def s6_def s5_def s4_def s3_def s2_def s1_def defs)
  from getLightsInViewSpace_at_fade_end[OF k11, of 4] obtain views12 where
    v12: "snd (getLightsInViewSpace ?ext s11 mainCamera ?vm 4)
      = s11\<lparr>heapLights := (heapLights s11)(3 := fadeDiffuse (heapLights s11 3) 4 NaN),
              mLightsInViewSpace := views12\<rparr>"
    by (elim exE)
  define s12 where "s12 = s11\<lparr>heapLights := (heapLights s11)(3 := fadeDiffuse (heapLights s11 3) 4 NaN),
                              mLightsInViewSpace := views12\<rparr>"
  (* Every state of the run is a state that the manager reaches. *)
  have "reachable ?ext ?L smallManager"
    by (rule reachable.constructed) (simp_all add: smallManager_def freshManager_def)
  then have "reachable ?ext ?L s1" unfolding s1_def by (rule reachable.settingsChanged)
  then have "reachable ?ext ?L s2" unfolding s2_def by (rule reachable.updated)
  then have "reachable ?ext ?L s3" unfolding s3_def by (rule reachable.lightAdded)
  then have "reachable ?ext ?L s4" unfolding s4_def by (rule reachable.sunRecorded[OF _ c4])
  then have "reachable ?ext ?L (snd (getLightsInViewSpace ?ext s4 mainCamera ?vm 2))"
    by (rule reachable.viewed)
  then have r5: "reachable ?ext ?L s5" unfolding v5 s5_def .
  have "reachable ?ext ?L s6"
    by (rule reachable.requested[OF r5 _ r6']) (simp add: i5)
  then have "reachable ?ext ?L s7" unfolding s7_def by (rule reachable.attributeApplied[OF _ a7])
  then have "reachable ?ext ?L s8" unfolding s8_def by (rule reachable.updated)
  then have "reachable ?ext ?L s9" unfolding s9_def by (rule reachable.updated)
  then have "reachable ?ext ?L s10" unfolding s10_def by (rule reachable.lightAdded)
  then have "reachable ?ext ?L s11" unfolding s11_def by (rule reachable.sunRecorded[OF _ c11])
  then have "reachable ?ext ?L (snd (getLightsInViewSpace ?ext s11 mainCamera ?vm 4))"
    by (rule reachable.viewed)
  then have reach: "reachable ?ext ?L s12" unfolding v12 s12_def .
  (* The state before the request of frame 4. *)
  have i12: "lightId s12 ?l = 3"
    by (simp add: lightId_def lightAt_def fadeDiffuse_def s12_def s11_def s10_def s9_def s8_def s7_def
        s6_def s5_def s4_def s3_def s2_def s1_def defs)
  have ids: "map (lightId s12) [?l] \<in> ?L" by (simp add: i12)
  have inj: "inj_on (lightListHash ?ext) ?L" by simp
  have hit: "fmlookup (at2 (mStateSetCache s12) (4 mod 2))
           (lightListHash ?ext (map (lightId s12) [?l])) = Some 0"
    unfolding list.map i12
    by (simp add: s12_def s11_def s10_def s9_def s8_def s7_def s6_def defs)
  have nan: "diffuse (getLight (heapLights s12 3) 4) = NaNs"
    by (simp add: s12_def diffuse_fadeDiffuse_NaN)
  have k12: "getLightingMethod s12 = SingleUBO" "packedBuffer (getLightBuffer s12 4)"
    "getLightIndexMap s12 4 = fmempty"
    using p11 by (simp_all add: s12_def s11_def s10_def s9_def s8_def s7_def s6_def s5_def s4_def
        s3_def s2_def s1_def defs)
  from assignLights_first[OF k12, of ?ext ?vm ?l] obtain hash m1 where
    a12: "assignLights ?ext 4 ?vm [?l] (0, s12) = Some (hash, m1)"
    by (elim exE conjE)
  from update_hook_in_bounds[OF reach inj ids hit, of ?vm]
  obtain cnt where c: "uPointLightCount (heapStateSets s12 0) = Some cnt"
    "min (getMaxLights s12) cnt \<le> int (length [?l])"
    and ret: "\<forall>hash m1. assignLights ?ext 4 ?vm [?l] (0, s12) = Some (hash, m1) \<longrightarrow>
            updateSingleUBO m1 (heapStateSets m1 0) [?l] 4 \<noteq> None
            \<and> (\<exists>mgr'. getLightListStateSet ?ext s12 [?l] 4 ?vm = Some (0, mgr'))"
    by (elim exE conjE)
  have c': "\<exists>cnt. uPointLightCount (heapStateSets s12 0) = Some cnt
           \<and> min (getMaxLights s12) cnt \<le> int (length [?l])"
    using c by (intro exI[of _ cnt] conjI)
  have ret': "\<exists>mgr'. getLightListStateSet ?ext s12 [?l] 4 ?vm = Some (0, mgr')"
    using ret[rule_format, OF a12] by (elim conjE)
  show ?thesis
    by (rule exI[of _ s12], intro conjI) (rule reach inj ids hit nan c' ret')+
qed

section \<open>The frame boundary\<close>

text \<open>Claim C7. After \<open>update(frameNum)\<close> the light index map of the parity of \<open>frameNum\<close> is
  empty, the list of collected lights is empty, and the cache of view-space bounds is empty,
  that is, it holds no list for any camera. Each of the two generations of the state set cache
  is empty if it held more than 5000 entries and is the same map as before otherwise.\<close>

theorem update_resets_frame_state:
  "getLightIndexMap (update mgr frameNum) frameNum = fmempty
   \<and> mLights (update mgr frameNum) = []
   \<and> mLightsInViewSpace (update mgr frameNum) = fmempty
   \<and> at2 (mStateSetCache (update mgr frameNum)) 0 =
       (if map_size (at2 (mStateSetCache mgr) 0) > 5000 then fmempty else at2 (mStateSetCache mgr) 0)
   \<and> at2 (mStateSetCache (update mgr frameNum)) 1 =
       (if map_size (at2 (mStateSetCache mgr) 1) > 5000 then fmempty else at2 (mStateSetCache mgr) 1)"
  by (simp add: update_def Let_def getLightIndexMap_def setLightIndexMap_def at2_def upd2_def cleanupCache_def)

section \<open>Configuration strings\<close>

text \<open>Claim C8. \<open>getLightingMethodFromString\<close> is a total function of its argument: each of the
  three recognised names yields its tier and logs nothing, and every other string yields the
  fallback tier \<open>PerObjectUniform\<close> (the tier named "shaders compatibility") together with
  exactly one warning line.\<close>

theorem getLightingMethodFromString_never_fails:
  "getLightingMethodFromString v =
     (if v = ''legacy'' then (FFP, [])
      else if v = ''shaders compatibility'' then (PerObjectUniform, [])
      else if v = ''shaders'' then (SingleUBO, [])
      else (PerObjectUniform, [unknownMethodWarning v]))
   \<and> map_of mLightingMethodSettingMap ''shaders compatibility'' = Some PerObjectUniform"
  by (simp add: getLightingMethodFromString_def mLightingMethodSettingMap_def)

section \<open>The divisor of the fade\<close>

text \<open>Claim C10. The divisor \<open>mPointLightFadeEnd - mPointLightFadeStart\<close> of the fade is to be
  nonzero for all settings that \<open>updateSettings\<close> accepts. With a maximum light distance of 100
  and a fade start of 1, which the clamp to \<open>[0, 1]\<close> lets through, \<open>updateSettings\<close> sets both
  fields to 100: the fade is computed, since the fade end is not zero, and its divisor is zero.
  For a light at distance 100 the quotient is \<open>0 / 0\<close>.\<close>

theorem updateSettings_fade_start_one:
  "(let m = updateSettings
              \<lparr>lightBoundsMultiplier = 1, maximumLightDistance = 100, lightFadeStart = 1, maxLightsSetting = 8\<rparr>
              (mgr\<lparr>mLightingMethod := SingleUBO\<rparr>)
    in mPointLightFadeEnd m = 100 \<and> mPointLightFadeStart m = 100
       \<and> mPointLightFadeEnd m - mPointLightFadeStart m = 0
       \<and> fadeFactor m 100 = NaN)"
  by (simp add: updateSettings_def getLightingMethod_def Let_def clamp_def fadeFactor_def float_div_def
      clamp_q_def one_minus_def)

end
